theory Spec2Isabelle
  imports Main "HOL-Library.Word" "HOL-Library.Monad_Syntax" "HOL-Library.Signed_Division"
begin

unbundle bit_operations_syntax

section \<open>Data model of gpiolcd.c\<close>

text \<open>
  C \<open>int\<close> is a 32-bit two's complement value on the targets of the program and
  \<open>uint8_t\<close> an 8-bit unsigned one. Both are words; \<open>sint\<close> reads an \<open>int\<close>,
  \<open>uint\<close> a \<open>uint8_t\<close>. Arithmetic on \<open>c_int\<close> wraps around: C leaves signed
  overflow undefined, and the wrap is what the usual compilers produce.
\<close>

type_synonym c_int = "32 word"
type_synonym uint8 = "8 word"

datatype command =
  CMD_RESET | CMD_BKSP | CMD_CLR | CMD_NL | CMD_CR | CMD_HOME | CMD_TAB | CMD_FLASH

datatype reg_type = HD_COMMAND | HD_DATA

text \<open>\<open>enum hd_pin_id\<close>: indices into the array \<open>pins\<close>.\<close>

definition HD_PIN_DAT0 :: nat where "HD_PIN_DAT0 = 0"
definition HD_PIN_RS :: nat where "HD_PIN_RS = 8"
definition HD_PIN_RW :: nat where "HD_PIN_RW = 9"
definition HD_PIN_E :: nat where "HD_PIN_E = 10"
definition HD_PIN_BL :: nat where "HD_PIN_BL = 11"
definition HD_PIN_COUNT :: nat where "HD_PIN_COUNT = 12"

text \<open>
  What the process does to the outside world, in order: calls into libgpiod and
  \<open>usleep\<close>. A GPIO line is named by its number on the chip; the handle that
  \<open>gpiod_chip_get_line\<close> returns for a line is represented by that number.
\<close>

datatype hw_event =
  ChipOpen
  | GetLine c_int
  | RequestOutput c_int
  | LineSet c_int bool
  | Usleep nat
  | ChipClose

text \<open>
  \<open>gpio_pins\<close>: the chip (open or null) and the table \<open>lines[HD_PIN_COUNT]\<close>. The
  table is indexed by line number, not by pin role; a slot holds the handle of a line or
  is null. Only the slots 0 to 11 exist: what the code does with another index is
  undefined in C, and no operation of the model returns from it.
\<close>

record gpio_pins =
  chip :: bool
  lines :: "nat \<Rightarrow> c_int option"

text \<open>
  \<open>struct hd44780_state\<close>, with two more components of the program's state that are
  not in the struct: \<open>esc\<close>, the static variable of \<open>do_char\<close>, and \<open>hw\<close>, the log
  of the effects so far, threaded through every operation.
\<close>

record hd44780_state =
  hd_gpio :: gpio_pins
  hd_ifwidth :: c_int
  hd_lines :: c_int
  hd_cols :: c_int
  hd_blink :: c_int
  hd_cursor :: c_int
  hd_font :: c_int
  hd_bl_on :: c_int
  hd_col :: c_int
  hd_row :: c_int
  pins :: "nat \<Rightarrow> c_int"
  esc :: c_int
  hw :: "hw_event list"

definition HD_LINE1_DRAM_OFFSET :: c_int where "HD_LINE1_DRAM_OFFSET = 0x40"

section \<open>Address computation\<close>

text \<open>
  \<open>addr\<close> is a \<open>uint8_t\<close>: the assignment from \<open>hd_col\<close> and each \<open>+=\<close> compute in
  \<open>int\<close> and keep the low 8 bits.
\<close>

definition hd44780_calc_addr :: "hd44780_state \<Rightarrow> uint8" where
  "hd44780_calc_addr s =
     (let addr = (ucast (hd_col s) :: uint8);
          addr = (if hd_row s = 1 \<or> hd_row s = 3
                  then ucast ((ucast addr :: c_int) + HD_LINE1_DRAM_OFFSET) else addr);
          addr = (if hd_row s = 2 \<or> hd_row s = 3
                  then ucast ((ucast addr :: c_int) + hd_cols s) else addr)
      in addr)"

section \<open>Signal transmitter\<close>

text \<open>
  The driver's operations return \<open>None\<close> where the run has no defined continuation:
  an \<open>assert\<close> fails and the process is aborted, \<open>hd_gpio.lines\<close> is indexed outside
  its 12 slots, or a null handle is passed to libgpiod. Messages written by \<open>debug\<close> and
  \<open>warnx\<close> are left out, and so is the result of \<open>gpiod_line_set_value\<close>, which the
  code only logs.
\<close>

text \<open>The handle read from \<open>hd_gpio.lines[n]\<close>, where the slot exists and is not null.\<close>

definition lines_at :: "hd44780_state \<Rightarrow> c_int \<Rightarrow> c_int option" where
  "lines_at s n =
     (if 0 \<le>s n \<and> n <s word_of_nat HD_PIN_COUNT then lines (hd_gpio s) (nat (sint n))
      else None)"

definition usleep :: "nat \<Rightarrow> hd44780_state \<Rightarrow> hd44780_state option" where
  "usleep n s = Some (s\<lparr>hw := hw s @ [Usleep n]\<rparr>)"

definition hd44780_set_pin :: "hd44780_state \<Rightarrow> nat \<Rightarrow> bool \<Rightarrow> hd44780_state option" where
  "hd44780_set_pin s pin on =
     (if pins s pin = - 1 then None
      else case lines_at s (pins s pin) of
             None \<Rightarrow> None
           | Some line \<Rightarrow> Some (s\<lparr>hw := hw s @ [LineSet line on]\<rparr>))"

definition hd44780_strobe :: "hd44780_state \<Rightarrow> hd44780_state option" where
  "hd44780_strobe s = do {
     s \<leftarrow> usleep 20 s;
     s \<leftarrow> hd44780_set_pin s HD_PIN_E True;
     s \<leftarrow> usleep 40 s;
     s \<leftarrow> hd44780_set_pin s HD_PIN_E False;
     usleep 20 s
   }"

text \<open>A \<open>for\<close> loop over the given values of its counter.\<close>

primrec for_loop :: "nat list \<Rightarrow> (nat \<Rightarrow> 's \<Rightarrow> 's option) \<Rightarrow> 's \<Rightarrow> 's option" where
  "for_loop [] body s = Some s"
| "for_loop (i # is) body s = Option.bind (body i s) (for_loop is body)"

definition hd44780_output :: "hd44780_state \<Rightarrow> reg_type \<Rightarrow> uint8 \<Rightarrow> hd44780_state option" where
  "hd44780_output s type data = do {
     s \<leftarrow> hd44780_set_pin s HD_PIN_RW False;
     s \<leftarrow> (if type = HD_COMMAND then hd44780_set_pin s HD_PIN_RS False
          else hd44780_set_pin s HD_PIN_RS True);
     s \<leftarrow> for_loop [0, 1, 2, 3]
            (\<lambda>i s. hd44780_set_pin s (HD_PIN_DAT0 + i) (bit data (i + 4))) s;
     s \<leftarrow> hd44780_strobe s;
     s \<leftarrow> for_loop [0, 1, 2, 3]
            (\<lambda>i s. hd44780_set_pin s (HD_PIN_DAT0 + i) (bit data i)) s;
     hd44780_strobe s
   }"

definition hd44780_output4 :: "hd44780_state \<Rightarrow> reg_type \<Rightarrow> uint8 \<Rightarrow> hd44780_state option" where
  "hd44780_output4 s type data = do {
     s \<leftarrow> hd44780_set_pin s HD_PIN_RW False;
     s \<leftarrow> (if type = HD_COMMAND then hd44780_set_pin s HD_PIN_RS False
          else hd44780_set_pin s HD_PIN_RS True);
     s \<leftarrow> for_loop [0, 1, 2, 3]
            (\<lambda>i s. hd44780_set_pin s (HD_PIN_DAT0 + i) (bit data (i + 4))) s;
     hd44780_strobe s
   }"

section \<open>Display state machine\<close>

definition HD_CMD_CLEAR :: uint8 where "HD_CMD_CLEAR = 0x01"
definition HD_CMD_HOME :: uint8 where "HD_CMD_HOME = 0x02"
definition HD_CMD_ENTRYMODE :: uint8 where "HD_CMD_ENTRYMODE = 0x04"
definition HD_ENTRY_INCR :: uint8 where "HD_ENTRY_INCR = 0x02"
definition HD_CMD_DISPCTRL :: uint8 where "HD_CMD_DISPCTRL = 0x08"
definition HD_DISP_ON :: uint8 where "HD_DISP_ON = 0x04"
definition HD_CURSOR_ON :: uint8 where "HD_CURSOR_ON = 0x02"
definition HD_BLINK_ON :: uint8 where "HD_BLINK_ON = 0x01"
definition HD_CMD_MOVE :: uint8 where "HD_CMD_MOVE = 0x10"
definition HD_MOVE_CURSOR :: uint8 where "HD_MOVE_CURSOR = 0x00"
definition HD_MOVE_LEFT :: uint8 where "HD_MOVE_LEFT = 0x00"
definition HD_CMD_SETMODE :: uint8 where "HD_CMD_SETMODE = 0x20"
definition HD_MODE_8BIT_IF :: uint8 where "HD_MODE_8BIT_IF = 0x10"
definition HD_MODE_2LINES :: uint8 where "HD_MODE_2LINES = 0x08"
definition HD_MODE_LARGE_FONT :: uint8 where "HD_MODE_LARGE_FONT = 0x04"
definition HD_CMD_SET_ADDR :: uint8 where "HD_CMD_SET_ADDR = 0x80"

definition hd44780_putc :: "hd44780_state \<Rightarrow> c_int \<Rightarrow> hd44780_state option" where
  "hd44780_putc s c =
     (if hd_col s = hd_cols s then Some s
      else do {
        s \<leftarrow> hd44780_output s HD_DATA (ucast c);
        s \<leftarrow> usleep 40 s;
        Some (s\<lparr>hd_col := hd_col s + 1\<rparr>)
      })"

text \<open>
  The padding loop of \<open>CMD_NL\<close>:
  \<^verbatim>\<open>while (state->hd_col < state->hd_cols) hd44780_putc(state, ' ');\<close>
\<close>

function nl_pad :: "hd44780_state \<Rightarrow> hd44780_state option" where
  "nl_pad s =
     (if hd_col s <s hd_cols s then Option.bind (hd44780_putc s 0x20) nl_pad else Some s)"
  by pat_completeness auto
termination
proof (relation "measure (\<lambda>s. nat (sint (hd_cols s) - sint (hd_col s)))")
  show "wf (measure (\<lambda>s. nat (sint (hd_cols s) - sint (hd_col s))))" by simp
next
  fix s s' :: hd44780_state
  assume lt: "hd_col s <s hd_cols s" and p: "hd44780_putc s 0x20 = Some s'"
  from lt have l: "sint (hd_col s) < sint (hd_cols s)" by (simp add: word_sless_alt)
  from lt have "hd_col s \<noteq> hd_cols s" by auto
  with p have step: "hd_col s' = hd_col s + 1 \<and> hd_cols s' = hd_cols s"
    by (auto simp: hd44780_putc_def hd44780_output_def hd44780_strobe_def hd44780_set_pin_def
        usleep_def split: if_splits option.splits Option.bind_splits)
  have "sint (hd_cols s) < 2 ^ 31" using sint_lt [of "hd_cols s"] by simp
  moreover have "- (2 ^ 31) \<le> sint (hd_col s)" using sint_ge [of "hd_col s"] by simp
  ultimately have "sint (hd_col s + 1) = sint (hd_col s) + 1"
    using l by (simp add: sint_word_ariths signed_take_bit_int_eq_self)
  with step l show "(s', s) \<in> measure (\<lambda>s. nat (sint (hd_cols s) - sint (hd_col s)))"
    by simp
qed

text \<open>
  The loop of \<open>CMD_TAB\<close>:
  \<^verbatim>\<open>while (i-- > 0) hd44780_putc(state, ' ');\<close>
\<close>

function tab_loop :: "c_int \<Rightarrow> hd44780_state \<Rightarrow> hd44780_state option" where
  "tab_loop i s =
     (if 0 <s i then Option.bind (hd44780_putc s 0x20) (tab_loop (i - 1)) else Some s)"
  by pat_completeness auto
termination
proof (relation "measure (\<lambda>(i, s). nat (sint i))")
  show "wf (measure (\<lambda>(i :: c_int, s :: hd44780_state). nat (sint i)))" by simp
next
  fix i :: c_int and s s' :: hd44780_state
  assume "0 <s i"
  then have pos: "0 < sint i" by (simp add: word_sless_alt)
  have "sint i < 2 ^ 31" using sint_lt [of i] by simp
  with pos have "sint (i - 1) = sint i - 1"
    by (simp add: sint_word_ariths signed_take_bit_int_eq_self)
  with pos show "((i - 1, s'), (i, s)) \<in> measure (\<lambda>(i, s). nat (sint i))"
    by simp
qed

text \<open>C's \<open>%\<close> on \<open>int\<close> truncates towards zero.\<close>

definition c_rem :: "c_int \<Rightarrow> c_int \<Rightarrow> c_int" where
  "c_rem a b = word_of_int (sint a smod sint b)"

text \<open>The value sent to switch the display on, built the same way in \<open>CMD_RESET\<close> and \<open>CMD_FLASH\<close>.\<close>

definition dispctrl_on :: "hd44780_state \<Rightarrow> uint8" where
  "dispctrl_on s =
     (let val = HD_CMD_DISPCTRL;
          val = val OR HD_DISP_ON;
          val = (if hd_cursor s \<noteq> 0 then val OR HD_CURSOR_ON else val);
          val = (if hd_blink s \<noteq> 0 then val OR HD_BLINK_ON else val)
      in val)"

text \<open>The mode that \<open>CMD_RESET\<close> configures.\<close>

definition setmode_val :: "hd44780_state \<Rightarrow> uint8" where
  "setmode_val s =
     (let val = HD_CMD_SETMODE;
          val = (if hd_ifwidth s = 8 then val OR HD_MODE_8BIT_IF else val);
          val = (if hd_lines s \<noteq> 1 then val OR HD_MODE_2LINES else val);
          val = (if hd_font s \<noteq> 0 then val OR HD_MODE_LARGE_FONT else val)
      in val)"

text \<open>The body of \<open>case CMD_RESET\<close> up to the fallthrough.\<close>

definition reset_sequence :: "hd44780_state \<Rightarrow> hd44780_state option" where
  "reset_sequence s = do {
     s \<leftarrow> hd44780_output4 s HD_COMMAND (HD_CMD_SETMODE OR HD_MODE_8BIT_IF);
     s \<leftarrow> usleep 10000 s;
     s \<leftarrow> hd44780_output4 s HD_COMMAND (HD_CMD_SETMODE OR HD_MODE_8BIT_IF);
     s \<leftarrow> usleep 1000 s;
     s \<leftarrow> hd44780_output4 s HD_COMMAND (HD_CMD_SETMODE OR HD_MODE_8BIT_IF);
     s \<leftarrow> usleep 1000 s;
     s \<leftarrow> (if hd_ifwidth s = 4 then hd44780_output4 s HD_COMMAND (setmode_val s) else Some s);
     s \<leftarrow> hd44780_output s HD_COMMAND (setmode_val s);
     s \<leftarrow> usleep 10000 s;
     s \<leftarrow> hd44780_output s HD_COMMAND HD_CMD_DISPCTRL;
     s \<leftarrow> usleep 1000 s;
     s \<leftarrow> hd44780_output s HD_COMMAND (dispctrl_on s);
     s \<leftarrow> usleep 1000 s;
     s \<leftarrow> hd44780_output s HD_COMMAND (HD_CMD_ENTRYMODE OR HD_ENTRY_INCR);
     usleep 1000 s
   }"

text \<open>One round of the loop of \<open>case CMD_FLASH\<close>.\<close>

definition flash_round :: "nat \<Rightarrow> hd44780_state \<Rightarrow> hd44780_state option" where
  "flash_round i s = do {
     s \<leftarrow> hd44780_output s HD_COMMAND HD_CMD_DISPCTRL;
     s \<leftarrow> usleep 200000 s;
     s \<leftarrow> hd44780_output s HD_COMMAND (dispctrl_on s);
     if i < 3 then usleep 200000 s else usleep 1000 s
   }"

text \<open>
  \<open>hd44780_command\<close>. \<open>CMD_RESET\<close> falls through into \<open>case CMD_CLR\<close>, and \<open>CMD_BKSP\<close>
  at column 0 calls the function again with \<open>CMD_FLASH\<close>. The \<open>default\<close> branch of
  the switch is not reached by a value of the enumeration.
\<close>

function hd44780_command :: "hd44780_state \<Rightarrow> command \<Rightarrow> hd44780_state option" where
  "hd44780_command s CMD_RESET = do {
     s \<leftarrow> reset_sequence s;
     hd44780_command s CMD_CLR
   }"
| "hd44780_command s CMD_CLR = do {
     s \<leftarrow> hd44780_output s HD_COMMAND HD_CMD_CLEAR;
     s \<leftarrow> usleep 2000 s;
     Some (s\<lparr>hd_col := 0, hd_row := 0\<rparr>)
   }"
| "hd44780_command s CMD_BKSP = do {
     s \<leftarrow> (if 0 <s hd_col s then do {
            s \<leftarrow> hd44780_output s HD_COMMAND (HD_CMD_MOVE OR HD_MOVE_CURSOR OR HD_MOVE_LEFT);
            s \<leftarrow> Some (s\<lparr>hd_col := hd_col s - 1\<rparr>);
            s \<leftarrow> hd44780_putc s 0x20;
            s \<leftarrow> hd44780_output s HD_COMMAND (HD_CMD_MOVE OR HD_MOVE_CURSOR OR HD_MOVE_LEFT);
            Some (s\<lparr>hd_col := hd_col s - 1\<rparr>)
          } else hd44780_command s CMD_FLASH);
     usleep 1000 s
   }"
| "hd44780_command s CMD_NL = do {
     s \<leftarrow> nl_pad s;
     if hd_row s <s hd_lines s - 1 then do {
       s \<leftarrow> Some (s\<lparr>hd_row := hd_row s + 1\<rparr>);
       s \<leftarrow> Some (s\<lparr>hd_col := 0\<rparr>);
       s \<leftarrow> hd44780_output s HD_COMMAND (HD_CMD_SET_ADDR OR hd44780_calc_addr s);
       usleep 1000 s
     } else Some s
   }"
| "hd44780_command s CMD_CR = do {
     s \<leftarrow> Some (s\<lparr>hd_col := 0\<rparr>);
     s \<leftarrow> hd44780_output s HD_COMMAND (HD_CMD_SET_ADDR OR hd44780_calc_addr s);
     usleep 1000 s
   }"
| "hd44780_command s CMD_HOME = do {
     s \<leftarrow> hd44780_output s HD_COMMAND HD_CMD_HOME;
     s \<leftarrow> usleep 2000 s;
     Some (s\<lparr>hd_col := 0, hd_row := 0\<rparr>)
   }"
| "hd44780_command s CMD_TAB =
     (let i = 8 - c_rem (hd_col s) 8;
          i = (if hd_cols s <s hd_col s + i then hd_cols s - hd_col s else i)
      in tab_loop i s)"
| "hd44780_command s CMD_FLASH = for_loop [0, 1] flash_round s"
  by pat_completeness auto
termination
  by (relation "measure (\<lambda>(s, cmd). case cmd of CMD_RESET \<Rightarrow> 1 | CMD_BKSP \<Rightarrow> 1 | _ \<Rightarrow> 0)") auto

section \<open>Input interpreter\<close>

text \<open>
  \<open>isascii\<close> and \<open>isprint\<close> of the C library, in the \<open>"C"\<close> locale the program
  runs in (it never calls \<open>setlocale\<close>). A \<open>char\<close> is its byte.
\<close>

definition isascii :: "uint8 \<Rightarrow> bool" where
  "isascii ch = (ch AND 0x80 = 0)"

definition isprint :: "uint8 \<Rightarrow> bool" where
  "isprint ch = (0x20 \<le> ch \<and> ch \<le> 0x7E)"

text \<open>
  The characters of the switch statements, by code:
  \<open>'R'\<close> 0x52, \<open>'H'\<close> 0x48, escape 27, \<open>'\n'\<close> 0x0A, \<open>'\r'\<close> 0x0D, \<open>'\t'\<close> 0x09,
  \<open>'\a'\<close> 0x07, \<open>'\b'\<close> 0x08, \<open>'\f'\<close> 0x0C.
\<close>

definition do_char :: "hd44780_state \<Rightarrow> uint8 \<Rightarrow> hd44780_state option" where
  "do_char s ch =
     (if esc s \<noteq> 0 then do {
        s \<leftarrow> (if ch = 0x52 then hd44780_command s CMD_RESET
             else if ch = 0x48 then hd44780_command s CMD_HOME
             else Some s);
        Some (s\<lparr>esc := 0\<rparr>)
      }
      else if ch = 27 then Some (s\<lparr>esc := 1\<rparr>)
      else if ch = 0x0A then hd44780_command s CMD_NL
      else if ch = 0x0D then hd44780_command s CMD_CR
      else if ch = 0x09 then hd44780_command s CMD_TAB
      else if ch = 0x07 then hd44780_command s CMD_FLASH
      else if ch = 0x08 then hd44780_command s CMD_BKSP
      else if ch = 0x0C then hd44780_command s CMD_CLR
      else if isascii ch \<and> isprint ch then hd44780_putc s (ucast ch)
      else Some s)"

primrec do_chars :: "uint8 list \<Rightarrow> hd44780_state \<Rightarrow> hd44780_state option" where
  "do_chars [] s = Some s"
| "do_chars (ch # cs) s = Option.bind (do_char s ch) (do_chars cs)"

section \<open>Start-up\<close>

text \<open>
  How the process ends: \<open>exit\<close> with a status, after the effects listed, or without a
  defined result (\<open>abort\<close> from a failed \<open>assert\<close>, or an access that C leaves
  undefined).
\<close>

datatype exit_status = EX_OK | EX_USAGE | EX_OSFILE | EXIT_1

datatype outcome = Exited exit_status "hw_event list" | Failed

text \<open>libgpiod is outside the program: whether its calls succeed is a parameter.\<close>

record gpio_env =
  chip_open_ok :: bool
  get_line_ok :: "c_int \<Rightarrow> bool"
  request_output_ok :: "c_int \<Rightarrow> bool"

definition usage :: "hd44780_state \<Rightarrow> outcome" where
  "usage s = Exited EX_USAGE (hw s)"

definition or_fail :: "hd44780_state option \<Rightarrow> outcome + hd44780_state" where
  "or_fail r = (case r of None \<Rightarrow> Inl Failed | Some s \<Rightarrow> Inr s)"

definition and_then :: "outcome + 'a \<Rightarrow> ('a \<Rightarrow> outcome + 'b) \<Rightarrow> outcome + 'b" where
  "and_then r f = (case r of Inl out \<Rightarrow> Inl out | Inr s \<Rightarrow> f s)"

primrec for_pins :: "nat list \<Rightarrow> (nat \<Rightarrow> 's \<Rightarrow> outcome + 's) \<Rightarrow> 's \<Rightarrow> outcome + 's" where
  "for_pins [] body s = Inr s"
| "for_pins (i # is) body s = and_then (body i s) (for_pins is body)"

definition pin_ids :: "nat list" where
  "pin_ids = [0, 1, 2, 3, 4, 5, 6, 7, 8, 9, 10, 11]"

text \<open>
  \<open>hd44780_prepare\<close>. Its first loop stores each handle at \<open>hd_gpio.lines[pins[i]]\<close>
  before it tests it; the second loop and \<open>hd44780_set_pin\<close> read it from there.
\<close>

definition hd44780_prepare :: "gpio_env \<Rightarrow> hd44780_state \<Rightarrow> outcome + hd44780_state" where
  "hd44780_prepare env s =
     (let s = s\<lparr>hw := hw s @ [ChipOpen]\<rparr>;
          s = s\<lparr>hd_gpio := (hd_gpio s)\<lparr>chip := chip_open_ok env\<rparr>\<rparr> in
      if \<not> chip (hd_gpio s) then Inl (Exited EX_OSFILE (hw s))
      else
        and_then (for_pins pin_ids (\<lambda>i s.
          if pins s i = - 1 then Inr s
          else let s = s\<lparr>hw := hw s @ [GetLine (pins s i)]\<rparr> in
            if \<not> (0 \<le>s pins s i \<and> pins s i <s word_of_nat HD_PIN_COUNT) then Inl Failed
            else let s = s\<lparr>hd_gpio := (hd_gpio s)\<lparr>lines := (lines (hd_gpio s))
                        (nat (sint (pins s i)) :=
                           if get_line_ok env (pins s i) then Some (pins s i) else None)\<rparr>\<rparr> in
              if lines_at s (pins s i) = None then Inl (Exited EX_OSFILE (hw s))
              else Inr s) s) (\<lambda>s.
        and_then (for_pins pin_ids (\<lambda>i s.
          if pins s i = - 1 then Inr s
          else case lines_at s (pins s i) of
                 None \<Rightarrow> Inl Failed
               | Some line \<Rightarrow>
                   let s = s\<lparr>hw := hw s @ [RequestOutput line]\<rparr> in
                     if request_output_ok env line then Inr s
                     else Inl (Exited EXIT_1 (hw s))) s) (\<lambda>s.
        and_then (for_pins pin_ids (\<lambda>i s.
          if pins s i = - 1 then Inr s
          else or_fail (hd44780_set_pin s i False)) s) (\<lambda>s.
        or_fail (do {
          s \<leftarrow> usleep 20000 s;
          s \<leftarrow> hd44780_command s CMD_RESET;
          if hd_bl_on s \<noteq> 0 then hd44780_set_pin s HD_PIN_BL True else Some s
        })))))"

text \<open>
  The loop of \<open>main\<close> that numbers the data pins after the first one. It runs where the
  interface width is 4, that is for 1, 2 and 3.
\<close>

definition number_data_pins :: "hd44780_state \<Rightarrow> hd44780_state" where
  "number_data_pins s =
     fold (\<lambda>i s. s\<lparr>pins := (pins s)(HD_PIN_DAT0 + i := pins s HD_PIN_DAT0 + of_nat i)\<rparr>)
       [1, 2, 3] s"

text \<open>
  The checks of \<open>main\<close> between option parsing and \<open>hd44780_prepare\<close>, on the state
  that option parsing leaves. The product of lines and columns is computed in \<open>int\<close>.
\<close>

definition main_checks :: "hd44780_state \<Rightarrow> outcome + hd44780_state" where
  "main_checks s =
     (if hd_ifwidth s \<noteq> 4 then Inl (usage s)
      else
        let s = number_data_pins s
        in
          if hd_lines s \<noteq> 1 \<and> hd_lines s \<noteq> 2 \<and> hd_lines s \<noteq> 4 then Inl (usage s)
          else if hd_cols s \<le>s 0 \<or> 80 <s hd_lines s * hd_cols s then Inl (usage s)
          else if hd_bl_on s \<noteq> 0 \<and> pins s HD_PIN_BL = - 1 then Inl (usage s)
          else Inr s)"

text \<open>
  \<open>main\<close> after option parsing, on the characters of the arguments or of standard
  input. \<open>hd44780_finish\<close> is registered with \<open>atexit\<close> once \<open>hd44780_prepare\<close> has
  returned, so it runs at the final \<open>exit\<close> only.
\<close>

definition main :: "gpio_env \<Rightarrow> hd44780_state \<Rightarrow> uint8 list \<Rightarrow> outcome" where
  "main env s input =
     (case and_then (main_checks s) (hd44780_prepare env) of
        Inl out \<Rightarrow> out
      | Inr s \<Rightarrow>
          (case do_chars input s of
             None \<Rightarrow> Failed
           | Some s \<Rightarrow> Exited EX_OK (hw s @ [ChipClose])))"

section \<open>Vocabulary of the statements\<close>

text \<open>
  The handle that \<open>hd44780_set_pin\<close> passes to libgpiod for a pin role, where its
  assertion holds and the table has one; and the line driven for each role (- 1 where
  there is none).
\<close>

definition gpio_line :: "hd44780_state \<Rightarrow> nat \<Rightarrow> c_int option" where
  "gpio_line s pin = (if pins s pin = - 1 then None else lines_at s (pins s pin))"

definition driven :: "hd44780_state \<Rightarrow> nat \<Rightarrow> c_int" where
  "driven s pin = (case gpio_line s pin of None \<Rightarrow> - 1 | Some line \<Rightarrow> line)"

text \<open>
  The events of one strobe, of one call of \<open>hd44780_output\<close> and of one character
  written by \<open>hd44780_putc\<close>, given the line of each pin role.
\<close>

definition strobe_events :: "(nat \<Rightarrow> c_int) \<Rightarrow> hw_event list" where
  "strobe_events ps =
     [Usleep 20, LineSet (ps HD_PIN_E) True, Usleep 40, LineSet (ps HD_PIN_E) False, Usleep 20]"

definition nibble_events :: "(nat \<Rightarrow> c_int) \<Rightarrow> uint8 \<Rightarrow> nat \<Rightarrow> hw_event list" where
  "nibble_events ps data k =
     map (\<lambda>i. LineSet (ps (HD_PIN_DAT0 + i)) (bit data (i + k))) [0, 1, 2, 3]"

definition output4_events :: "(nat \<Rightarrow> c_int) \<Rightarrow> reg_type \<Rightarrow> uint8 \<Rightarrow> hw_event list" where
  "output4_events ps type data =
     [LineSet (ps HD_PIN_RW) False, LineSet (ps HD_PIN_RS) (type = HD_DATA)]
     @ nibble_events ps data 4 @ strobe_events ps"

definition output_events :: "(nat \<Rightarrow> c_int) \<Rightarrow> reg_type \<Rightarrow> uint8 \<Rightarrow> hw_event list" where
  "output_events ps type data =
     output4_events ps type data @ nibble_events ps data 0 @ strobe_events ps"

definition putc_events :: "(nat \<Rightarrow> c_int) \<Rightarrow> uint8 \<Rightarrow> hw_event list" where
  "putc_events ps c = output_events ps HD_DATA c @ [Usleep 40]"

text \<open>The events of \<open>case CMD_CLR\<close>, of \<open>case CMD_HOME\<close> and of the reset sequence.\<close>

definition clear_events :: "(nat \<Rightarrow> c_int) \<Rightarrow> hw_event list" where
  "clear_events ps = output_events ps HD_COMMAND HD_CMD_CLEAR @ [Usleep 2000]"

definition home_events :: "(nat \<Rightarrow> c_int) \<Rightarrow> hw_event list" where
  "home_events ps = output_events ps HD_COMMAND HD_CMD_HOME @ [Usleep 2000]"

definition reset_events :: "hd44780_state \<Rightarrow> hw_event list" where
  "reset_events s =
     output4_events (driven s) HD_COMMAND (HD_CMD_SETMODE OR HD_MODE_8BIT_IF) @ [Usleep 10000]
     @ output4_events (driven s) HD_COMMAND (HD_CMD_SETMODE OR HD_MODE_8BIT_IF) @ [Usleep 1000]
     @ output4_events (driven s) HD_COMMAND (HD_CMD_SETMODE OR HD_MODE_8BIT_IF) @ [Usleep 1000]
     @ (if hd_ifwidth s = 4 then output4_events (driven s) HD_COMMAND (setmode_val s) else [])
     @ output_events (driven s) HD_COMMAND (setmode_val s) @ [Usleep 10000]
     @ output_events (driven s) HD_COMMAND HD_CMD_DISPCTRL @ [Usleep 1000]
     @ output_events (driven s) HD_COMMAND (dispctrl_on s) @ [Usleep 1000]
     @ output_events (driven s) HD_COMMAND (HD_CMD_ENTRYMODE OR HD_ENTRY_INCR) @ [Usleep 1000]"

text \<open>The events of \<open>CMD_FLASH\<close>: display off, display on, twice.\<close>

definition flash_events :: "hd44780_state \<Rightarrow> hw_event list" where
  "flash_events s =
     concat (replicate 2
       (output_events (driven s) HD_COMMAND HD_CMD_DISPCTRL @ [Usleep 200000]
        @ output_events (driven s) HD_COMMAND (dispctrl_on s) @ [Usleep 200000]))"

text \<open>
  The address as the specification gives it:
  column + (row in {1,3} ? 0x40 : 0) + (row in {2,3} ? configured column count : 0),
  over the integers.
\<close>

definition dram_address :: "hd44780_state \<Rightarrow> int" where
  "dram_address s =
     sint (hd_col s)
     + (if hd_row s = 1 \<or> hd_row s = 3 then 0x40 else 0)
     + (if hd_row s = 2 \<or> hd_row s = 3 then sint (hd_cols s) else 0)"

text \<open>The characters written by \<open>n\<close> calls of \<open>hd44780_putc\<close> with a space.\<close>

definition spaces :: "(nat \<Rightarrow> c_int) \<Rightarrow> nat \<Rightarrow> hw_event list" where
  "spaces ps n = concat (replicate n (putc_events ps 0x20))"

text \<open>
  The column a tab moves to, as the specification gives it:
  min(columns, c + (8 - c % 8)).
\<close>

definition tab_stop :: "hd44780_state \<Rightarrow> int" where
  "tab_stop s = min (sint (hd_cols s)) (sint (hd_col s) + (8 - sint (hd_col s) mod 8))"

text \<open>
  A pin role is ready: it is assigned (the assertion of \<open>hd44780_set_pin\<close> holds), its
  line number is one of the 12 slots of \<open>hd_gpio.lines\<close>, 0 to 11, and the slot holds a
  handle.
\<close>

definition pin_ready :: "hd44780_state \<Rightarrow> nat \<Rightarrow> bool" where
  "pin_ready s pin \<longleftrightarrow>
     pins s pin \<noteq> - 1 \<and> 0 \<le> sint (pins s pin) \<and> sint (pins s pin) < int HD_PIN_COUNT \<and>
     lines (hd_gpio s) (nat (sint (pins s pin))) \<noteq> None"

text \<open>The seven pins that the transmitter drives are ready.\<close>

definition pins_ok :: "hd44780_state \<Rightarrow> bool" where
  "pins_ok s \<longleftrightarrow>
     pin_ready s HD_PIN_RS \<and> pin_ready s HD_PIN_RW \<and> pin_ready s HD_PIN_E \<and>
     pin_ready s HD_PIN_DAT0 \<and> pin_ready s (HD_PIN_DAT0 + 1) \<and>
     pin_ready s (HD_PIN_DAT0 + 2) \<and> pin_ready s (HD_PIN_DAT0 + 3)"

text \<open>The range of the cursor: \<open>0 \<le> row < lines\<close> and \<open>0 \<le> column \<le> columns\<close>.\<close>

definition cursor_ok :: "hd44780_state \<Rightarrow> bool" where
  "cursor_ok s \<longleftrightarrow>
     0 \<le> sint (hd_row s) \<and> sint (hd_row s) < sint (hd_lines s) \<and>
     0 \<le> sint (hd_col s) \<and> sint (hd_col s) \<le> sint (hd_cols s)"

text \<open>
  The state that \<open>main\<close> sets up before it reads the options (\<open>initial_state\<close>: 2 lines
  of 16 columns, a 4-bit interface, the backlight on, pins 0 to 4, the other fields of
  the static struct zero), the same state once the data pins are numbered
  (\<open>default_state\<close>), and that state once \<open>hd44780_prepare\<close> has opened the chip and
  filled the table with the handles of the lines 0 to 7 (\<open>ready_state\<close>, with an empty
  log).
\<close>

definition default_pins :: "nat \<Rightarrow> c_int" where
  "default_pins i =
     (if i = HD_PIN_RS then 0 else if i = HD_PIN_RW then 1 else if i = HD_PIN_E then 2
      else if i = HD_PIN_BL then 3 else if i = HD_PIN_DAT0 then 4
      else if i = HD_PIN_DAT0 + 1 then 5 else if i = HD_PIN_DAT0 + 2 then 6
      else if i = HD_PIN_DAT0 + 3 then 7 else - 1)"

definition initial_pins :: "nat \<Rightarrow> c_int" where
  "initial_pins i =
     (if i = HD_PIN_RS then 0 else if i = HD_PIN_RW then 1 else if i = HD_PIN_E then 2
      else if i = HD_PIN_BL then 3 else if i = HD_PIN_DAT0 then 4 else - 1)"

definition initial_state :: hd44780_state where
  "initial_state =
     \<lparr>hd_gpio = \<lparr>chip = False, lines = (\<lambda>_. None)\<rparr>, hd_ifwidth = 4,
      hd_lines = 2, hd_cols = 16, hd_blink = 0, hd_cursor = 0, hd_font = 0,
      hd_bl_on = 1, hd_col = 0, hd_row = 0, pins = initial_pins, esc = 0, hw = []\<rparr>"

definition default_state :: hd44780_state where
  "default_state =
     \<lparr>hd_gpio = \<lparr>chip = False, lines = (\<lambda>_. None)\<rparr>, hd_ifwidth = 4,
      hd_lines = 2, hd_cols = 16, hd_blink = 0, hd_cursor = 0, hd_font = 0,
      hd_bl_on = 1, hd_col = 0, hd_row = 0, pins = default_pins, esc = 0, hw = []\<rparr>"

definition default_lines :: "nat \<Rightarrow> c_int option" where
  "default_lines n = (if n < 8 then Some (word_of_nat n) else None)"

definition ready_state :: hd44780_state where
  "ready_state = default_state\<lparr>hd_gpio := \<lparr>chip = True, lines = default_lines\<rparr>\<rparr>"

text \<open>libgpiod as it answers when the chip cannot be opened, and when every call succeeds.\<close>

definition no_chip :: gpio_env where
  "no_chip = \<lparr>chip_open_ok = False, get_line_ok = (\<lambda>_. True), request_output_ok = (\<lambda>_. True)\<rparr>"

definition good_chip :: gpio_env where
  "good_chip = \<lparr>chip_open_ok = True, get_line_ok = (\<lambda>_. True), request_output_ok = (\<lambda>_. True)\<rparr>"

section \<open>Properties of the address computation\<close>

subsection \<open>Conversions between \<open>int\<close> and \<open>uint8_t\<close>\<close>

lemma uint_ucast_8: "uint (ucast (w :: c_int) :: uint8) = uint w mod 256"
  by (simp add: unsigned_ucast_eq take_bit_eq_mod)

lemma uint_mod_256_sint: "uint (w :: c_int) mod 256 = sint w mod 256"
proof -
  have "uint w = take_bit 32 (sint w)" using uint_sint [of w] by simp
  then have "uint w mod 256 = take_bit 8 (take_bit 32 (sint w))"
    by (simp add: take_bit_eq_mod)
  also have "\<dots> = take_bit 8 (sint w)" by simp
  finally show ?thesis by (simp add: take_bit_eq_mod)
qed

lemma uint_col_u8: "uint (ucast (w :: c_int) :: uint8) = sint w mod 256"
  by (simp only: uint_ucast_8 uint_mod_256_sint)

lemma uint_add_u8:
  "uint (ucast ((ucast (a :: uint8) :: c_int) + b) :: uint8) = (uint a + sint b) mod 256"
proof -
  have up: "uint (ucast a :: c_int) = uint a"
    by (simp add: uint_up_ucast is_up)
  have "uint (ucast ((ucast a :: c_int) + b) :: uint8) = uint ((ucast a :: c_int) + b) mod 256"
    by (rule uint_ucast_8)
  also have "\<dots> = ((uint a + uint b) mod 2 ^ 32) mod 256"
    by (simp add: uint_word_ariths up)
  also have "\<dots> = (uint a + uint b) mod 256"
    by (simp add: mod_mod_cancel)
  also have "\<dots> = (uint a + uint b mod 256) mod 256"
    by (simp add: mod_add_right_eq)
  also have "\<dots> = (uint a + sint b mod 256) mod 256"
    by (simp only: uint_mod_256_sint)
  also have "\<dots> = (uint a + sint b) mod 256"
    by (simp add: mod_add_right_eq)
  finally show ?thesis .
qed

lemma uint_add_u8_mod:
  "uint (a :: uint8) = k mod 256 \<Longrightarrow>
   uint (ucast ((ucast a :: c_int) + b) :: uint8) = (k + sint b) mod 256"
  by (simp only: uint_add_u8 mod_add_left_eq)

lemma calc_addr_mod: "uint (hd44780_calc_addr s) = dram_address s mod 256"
proof -
  let ?a0 = "ucast (hd_col s) :: uint8"
  let ?a1 = "ucast ((ucast ?a0 :: c_int) + HD_LINE1_DRAM_OFFSET) :: uint8"
  have a0: "uint ?a0 = sint (hd_col s) mod 256"
    by (rule uint_col_u8)
  have a1: "uint ?a1 = (sint (hd_col s) + 0x40) mod 256"
    using uint_add_u8_mod [OF a0, of HD_LINE1_DRAM_OFFSET]
    by (simp add: HD_LINE1_DRAM_OFFSET_def)
  have a2: "uint (ucast ((ucast ?a0 :: c_int) + hd_cols s) :: uint8)
      = (sint (hd_col s) + sint (hd_cols s)) mod 256"
    by (rule uint_add_u8_mod [OF a0])
  have a3: "uint (ucast ((ucast ?a1 :: c_int) + hd_cols s) :: uint8)
      = (sint (hd_col s) + 0x40 + sint (hd_cols s)) mod 256"
    by (rule uint_add_u8_mod [OF a1])
  show ?thesis
    unfolding hd44780_calc_addr_def dram_address_def Let_def
    using a0 a1 a2 a3 by simp
qed

text \<open>
  C1, as the code has it. For every cursor position with row in {0,1,2,3} and any
  column c, \<open>hd44780_calc_addr\<close> returns the low 8 bits (the value modulo 256, its
  result being a \<open>uint8_t\<close>) of: c when row = 0; 0x40 + c when row = 1; the configured
  column count + c when row = 2; 0x40 + the configured column count + c when row = 3.
\<close>

theorem calc_addr_low_byte:
  "(hd_row s = 0 \<longrightarrow> uint (hd44780_calc_addr s) = sint (hd_col s) mod 256) \<and>
   (hd_row s = 1 \<longrightarrow> uint (hd44780_calc_addr s) = (0x40 + sint (hd_col s)) mod 256) \<and>
   (hd_row s = 2 \<longrightarrow>
      uint (hd44780_calc_addr s) = (sint (hd_cols s) + sint (hd_col s)) mod 256) \<and>
   (hd_row s = 3 \<longrightarrow>
      uint (hd44780_calc_addr s) = (0x40 + sint (hd_cols s) + sint (hd_col s)) mod 256)"
proof (intro conjI impI)
  assume "hd_row s = 0"
  then show "uint (hd44780_calc_addr s) = sint (hd_col s) mod 256"
    by (simp add: calc_addr_mod dram_address_def)
next
  assume "hd_row s = 1"
  then show "uint (hd44780_calc_addr s) = (0x40 + sint (hd_col s)) mod 256"
    by (simp add: calc_addr_mod dram_address_def add.commute)
next
  assume "hd_row s = 2"
  then show "uint (hd44780_calc_addr s) = (sint (hd_cols s) + sint (hd_col s)) mod 256"
    by (simp add: calc_addr_mod dram_address_def add.commute)
next
  assume "hd_row s = 3"
  then show "uint (hd44780_calc_addr s) = (0x40 + sint (hd_cols s) + sint (hd_col s)) mod 256"
    by (simp add: calc_addr_mod dram_address_def add.commute add.left_commute)
qed

theorem calc_addr_low_byte_witness:
  "hd_row (default_state\<lparr>hd_cols := 300, hd_col := 200, hd_row := 3\<rparr>) = 3 \<and>
   uint (hd44780_calc_addr (default_state\<lparr>hd_cols := 300, hd_col := 200, hd_row := 3\<rparr>)) = 52 \<and>
   (0x40 + sint (hd_cols (default_state\<lparr>hd_cols := 300, hd_col := 200, hd_row := 3\<rparr>))
      + sint (hd_col (default_state\<lparr>hd_cols := 300, hd_col := 200, hd_row := 3\<rparr>))) mod 256 = (52 :: int)"
  using calc_addr_low_byte [of "default_state\<lparr>hd_cols := 300, hd_col := 200, hd_row := 3\<rparr>"]
  by simp

text \<open>
  The address itself is not returned for every column: on a display set up with 4 lines
  of 1073741824 columns, in row 2 at column 0, the result is 0.
\<close>

theorem calc_addr_exact_counterexample:
  "hd_row (default_state\<lparr>hd_lines := 4, hd_cols := 0x40000000, hd_row := 2\<rparr>) = 2 \<and>
   uint (hd44780_calc_addr (default_state\<lparr>hd_lines := 4, hd_cols := 0x40000000, hd_row := 2\<rparr>))
     \<noteq> sint (hd_cols (default_state\<lparr>hd_lines := 4, hd_cols := 0x40000000, hd_row := 2\<rparr>))
       + sint (hd_col (default_state\<lparr>hd_lines := 4, hd_cols := 0x40000000, hd_row := 2\<rparr>))"
  by (simp add: hd44780_calc_addr_def default_state_def)

lemma sint_cases4:
  assumes "0 \<le> sint (r :: c_int)" "sint r < 4"
  shows "r = 0 \<or> r = 1 \<or> r = 2 \<or> r = 3"
proof -
  from assms have "sint r = 0 \<or> sint r = 1 \<or> sint r = 2 \<or> sint r = 3" by arith
  moreover have "sint r = 0 \<Longrightarrow> r = 0" using signed_word_eqI [of r 0] by simp
  moreover have "sint r = 1 \<Longrightarrow> r = 1" using signed_word_eqI [of r 1] by simp
  moreover have "sint r = 2 \<Longrightarrow> r = 2" using signed_word_eqI [of r 2] by simp
  moreover have "sint r = 3 \<Longrightarrow> r = 3" using signed_word_eqI [of r 3] by simp
  ultimately show ?thesis by blast
qed

lemma or_and_low: "(a :: uint8) < 0x80 \<Longrightarrow> (0x80 OR a) AND 0x7F = a"
proof -
  assume "a < 0x80"
  then have "a < 2 ^ 7" by simp
  then have "a AND mask 7 = a" by (rule less_mask_eq)
  then have m: "a AND 0x7F = a" by (simp add: mask_eq_exp_minus_1)
  have "(0x80 OR a) AND 0x7F = (0x80 AND 0x7F) OR (a AND 0x7F)"
    by (rule bit.conj_disj_distrib2)
  with m show ?thesis by simp
qed

lemma dram_address_range:
  assumes lines: "hd_lines s = 1 \<or> hd_lines s = 2 \<or> hd_lines s = 4"
    and cols: "0 < sint (hd_cols s)"
    and area: "sint (hd_lines s) * sint (hd_cols s) \<le> 80"
    and cur: "cursor_ok s"
  shows "0 \<le> dram_address s \<and> dram_address s < 0x80"
proof -
  from cur have r: "0 \<le> sint (hd_row s)" "sint (hd_row s) < sint (hd_lines s)"
    and c: "0 \<le> sint (hd_col s)" "sint (hd_col s) \<le> sint (hd_cols s)"
    by (simp_all add: cursor_ok_def)
  from lines show ?thesis
  proof (elim disjE)
    assume l: "hd_lines s = 1"
    with r have "sint (hd_row s) = sint (0 :: c_int)" by simp
    then have "hd_row s = 0" by (rule signed_word_eqI)
    with l c area show ?thesis by (simp add: dram_address_def)
  next
    assume l: "hd_lines s = 2"
    with r have "hd_row s = 0 \<or> hd_row s = 1 \<or> hd_row s = 2 \<or> hd_row s = 3"
      by (intro sint_cases4) simp_all
    moreover from l r have "hd_row s \<noteq> 2" "hd_row s \<noteq> 3" by auto
    ultimately have "hd_row s = 0 \<or> hd_row s = 1" by simp
    with l c area cols show ?thesis by (auto simp add: dram_address_def)
  next
    assume l: "hd_lines s = 4"
    with r have "hd_row s = 0 \<or> hd_row s = 1 \<or> hd_row s = 2 \<or> hd_row s = 3"
      by (intro sint_cases4) simp_all
    with l c area cols show ?thesis by (auto simp add: dram_address_def)
  qed
qed

lemma calc_addr_dram: "hd44780_calc_addr s = word_of_int (dram_address s)"
proof -
  have "hd44780_calc_addr s = word_of_int (uint (hd44780_calc_addr s))" by simp
  also have "\<dots> = word_of_int (dram_address s mod 256)" by (simp only: calc_addr_mod)
  also have "\<dots> = (word_of_int (dram_address s) :: uint8)"
    by (simp add: word_of_int_eq_iff take_bit_eq_mod)
  finally show ?thesis .
qed

lemma set_addr_byte:
  assumes "0 \<le> k" "k < 0x80"
  shows "uint (HD_CMD_SET_ADDR OR (word_of_int k :: uint8)) = 0x80 + k"
proof -
  have u: "uint (word_of_int k :: uint8) = k"
    using assms by (simp add: uint_word_of_int take_bit_eq_mod)
  have t: "take_bit 7 k = k" using assms by (simp add: take_bit_int_eq_self)
  have "\<not> bit k 7" using bit_take_bit_iff [of 7 k 7] unfolding t by simp
  moreover have "bit (128 :: int) n \<longleftrightarrow> n = 7" for n
    using bit_exp_iff [where ?'a = int, of 7 n] by simp
  ultimately have z: "(128 :: int) AND k = 0"
    by (intro bit_eqI) (auto simp add: bit_and_iff)
  have "(128 AND k) + (128 OR k) = 128 + k" by (rule plus_and_or)
  with z have "(128 :: int) OR k = 128 + k" by simp
  then show ?thesis
    by (simp add: uint_or u HD_CMD_SET_ADDR_def)
qed

text \<open>
  C10. For every configuration with lines in {1,2,4}, columns > 0 and
  lines * columns \<le> 80, and every cursor position with 0 \<le> row < lines and
  0 \<le> column \<le> columns, \<open>hd44780_calc_addr\<close> returns a value strictly less than 0x80:
  OR-ing it with the set-address bit 0x80 keeps the address bits, and the value is the
  address of the specification without truncation.
\<close>

theorem calc_addr_below_0x80:
  assumes "hd_lines s = 1 \<or> hd_lines s = 2 \<or> hd_lines s = 4"
    and "0 < sint (hd_cols s)"
    and "sint (hd_lines s) * sint (hd_cols s) \<le> 80"
    and "cursor_ok s"
  shows "hd44780_calc_addr s < 0x80 \<and>
    (HD_CMD_SET_ADDR OR hd44780_calc_addr s) AND 0x7F = hd44780_calc_addr s \<and>
    uint (hd44780_calc_addr s) = dram_address s"
proof -
  from dram_address_range [OF assms]
  have r: "0 \<le> dram_address s" "dram_address s < 0x80" by simp_all
  then have u: "uint (hd44780_calc_addr s) = dram_address s"
    by (simp add: calc_addr_mod)
  with r have lt: "hd44780_calc_addr s < 0x80"
    by (simp add: word_less_def)
  from or_and_low [OF lt] lt u show ?thesis
    by (simp add: HD_CMD_SET_ADDR_def)
qed

theorem calc_addr_below_0x80_witness:
  "cursor_ok (default_state\<lparr>hd_col := 16, hd_row := 1\<rparr>) \<and>
   sint (hd_lines default_state) * sint (hd_cols default_state) = 32 \<and>
   hd44780_calc_addr (default_state\<lparr>hd_col := 16, hd_row := 1\<rparr>) < 0x80 \<and>
   (HD_CMD_SET_ADDR OR hd44780_calc_addr (default_state\<lparr>hd_col := 16, hd_row := 1\<rparr>)) AND 0x7F
     = hd44780_calc_addr (default_state\<lparr>hd_col := 16, hd_row := 1\<rparr>) \<and>
   uint (hd44780_calc_addr (default_state\<lparr>hd_col := 16, hd_row := 1\<rparr>)) = 0x50"
proof -
  let ?s = "default_state\<lparr>hd_col := 16, hd_row := 1\<rparr>"
  have g: "hd_lines ?s = 1 \<or> hd_lines ?s = 2 \<or> hd_lines ?s = 4" "0 < sint (hd_cols ?s)"
    "sint (hd_lines ?s) * sint (hd_cols ?s) \<le> 80"
    by (simp_all add: default_state_def)
  have c: "cursor_ok ?s" by (simp add: cursor_ok_def default_state_def)
  have a: "dram_address ?s = 0x50" by (simp add: dram_address_def default_state_def)
  have m: "sint (hd_lines default_state) * sint (hd_cols default_state) = 32"
    by (simp add: default_state_def)
  from calc_addr_below_0x80 [OF g c] a c m show ?thesis by simp
qed

section \<open>What the transmitter sends\<close>

lemma lines_at_update [simp]:
  "lines_at (s\<lparr>hw := h\<rparr>) = lines_at s"
  "lines_at (s\<lparr>hd_col := c\<rparr>) = lines_at s"
  "lines_at (s\<lparr>hd_row := r\<rparr>) = lines_at s"
  "lines_at (s\<lparr>hd_cols := w\<rparr>) = lines_at s"
  "lines_at (s\<lparr>esc := e\<rparr>) = lines_at s"
  by (simp_all add: lines_at_def fun_eq_iff)

lemma gpio_line_update [simp]:
  "gpio_line (s\<lparr>hw := h\<rparr>) = gpio_line s"
  "gpio_line (s\<lparr>hd_col := c\<rparr>) = gpio_line s"
  "gpio_line (s\<lparr>hd_row := r\<rparr>) = gpio_line s"
  "gpio_line (s\<lparr>hd_cols := w\<rparr>) = gpio_line s"
  "gpio_line (s\<lparr>esc := e\<rparr>) = gpio_line s"
  by (simp_all add: gpio_line_def fun_eq_iff)

lemma driven_update [simp]:
  "driven (s\<lparr>hw := h\<rparr>) = driven s"
  "driven (s\<lparr>hd_col := c\<rparr>) = driven s"
  "driven (s\<lparr>hd_row := r\<rparr>) = driven s"
  "driven (s\<lparr>hd_cols := w\<rparr>) = driven s"
  "driven (s\<lparr>esc := e\<rparr>) = driven s"
  by (simp_all add: driven_def fun_eq_iff)

lemma pin_ready_gpio: "pin_ready s pin \<longleftrightarrow> gpio_line s pin \<noteq> None"
  by (auto simp add: pin_ready_def gpio_line_def lines_at_def HD_PIN_COUNT_def word_sle_eq
      word_sless_alt)

lemma pins_ok_gpio:
  "pins_ok s \<longleftrightarrow>
     gpio_line s HD_PIN_RS \<noteq> None \<and> gpio_line s HD_PIN_RW \<noteq> None \<and>
     gpio_line s HD_PIN_E \<noteq> None \<and>
     gpio_line s HD_PIN_DAT0 \<noteq> None \<and> gpio_line s (HD_PIN_DAT0 + 1) \<noteq> None \<and>
     gpio_line s (HD_PIN_DAT0 + 2) \<noteq> None \<and> gpio_line s (HD_PIN_DAT0 + 3) \<noteq> None"
  by (simp only: pins_ok_def pin_ready_gpio)

lemma pins_ok_update [simp]:
  "pins_ok (s\<lparr>hw := h\<rparr>) = pins_ok s"
  "pins_ok (s\<lparr>hd_col := c\<rparr>) = pins_ok s"
  "pins_ok (s\<lparr>hd_row := r\<rparr>) = pins_ok s"
  "pins_ok (s\<lparr>hd_cols := w\<rparr>) = pins_ok s"
  "pins_ok (s\<lparr>esc := e\<rparr>) = pins_ok s"
  by (simp_all add: pins_ok_gpio)

lemma set_pin_Some:
  "gpio_line s pin \<noteq> None \<Longrightarrow>
   hd44780_set_pin s pin on = Some (s\<lparr>hw := hw s @ [LineSet (driven s pin) on]\<rparr>)"
  by (auto simp: hd44780_set_pin_def gpio_line_def driven_def split: if_splits)

lemma strobe_Some:
  "gpio_line s HD_PIN_E \<noteq> None \<Longrightarrow>
   hd44780_strobe s = Some (s\<lparr>hw := hw s @ strobe_events (driven s)\<rparr>)"
  by (simp add: hd44780_strobe_def usleep_def set_pin_Some strobe_events_def)

lemma output4_Some:
  "pins_ok s \<Longrightarrow>
   hd44780_output4 s type data = Some (s\<lparr>hw := hw s @ output4_events (driven s) type data\<rparr>)"
  by (cases type)
    (simp_all add: hd44780_output4_def pins_ok_gpio set_pin_Some strobe_Some output4_events_def
      nibble_events_def)

lemma output_Some:
  "pins_ok s \<Longrightarrow>
   hd44780_output s type data = Some (s\<lparr>hw := hw s @ output_events (driven s) type data\<rparr>)"
  by (cases type)
    (simp_all add: hd44780_output_def pins_ok_gpio set_pin_Some strobe_Some output_events_def
      output4_events_def nibble_events_def)

lemma putc_write:
  "pins_ok s \<Longrightarrow> hd_col s \<noteq> hd_cols s \<Longrightarrow>
   hd44780_putc s c =
     Some (s\<lparr>hd_col := hd_col s + 1, hw := hw s @ putc_events (driven s) (ucast c)\<rparr>)"
  by (simp add: hd44780_putc_def output_Some usleep_def putc_events_def pins_ok_gpio)

lemma putc_edge: "hd_col s = hd_cols s \<Longrightarrow> hd44780_putc s c = Some s"
  by (simp add: hd44780_putc_def)

text \<open>
  C6. For every character c, \<open>hd44780_putc\<close> with the cursor column equal to the
  configured column count is a no-op: the state returned is the state given, so nothing
  is transmitted and neither the cursor nor the display changes.
\<close>

theorem putc_at_edge_noop: "hd_col s = hd_cols s \<Longrightarrow> hd44780_putc s c = Some s"
  by (simp add: hd44780_putc_def)

theorem putc_at_edge_noop_witness:
  "hd_col (default_state\<lparr>hd_col := 16\<rparr>) = hd_cols (default_state\<lparr>hd_col := 16\<rparr>) \<and>
   hd44780_putc (default_state\<lparr>hd_col := 16\<rparr>) 0x41 = Some (default_state\<lparr>hd_col := 16\<rparr>)"
  using putc_at_edge_noop [of "default_state\<lparr>hd_col := 16\<rparr>" "0x41"]
  by (simp add: default_state_def)

lemma sint_succ: "sint (a :: c_int) < sint (b :: c_int) \<Longrightarrow> sint (a + 1) = sint a + 1"
proof -
  assume l: "sint a < sint b"
  have "sint b < 2 ^ 31" using sint_lt [of b] by simp
  moreover have "- (2 ^ 31) \<le> sint a" using sint_ge [of a] by simp
  ultimately show ?thesis
    using l by (simp add: sint_word_ariths signed_take_bit_int_eq_self)
qed

lemma sint_pred: "sint (b :: c_int) < sint (a :: c_int) \<Longrightarrow> sint (a - 1) = sint a - 1"
proof -
  assume l: "sint b < sint a"
  have "sint a < 2 ^ 31" using sint_lt [of a] by simp
  moreover have "- (2 ^ 31) \<le> sint b" using sint_ge [of b] by simp
  ultimately show ?thesis
    using l by (simp add: sint_word_ariths signed_take_bit_int_eq_self)
qed

lemma spaces_Suc: "spaces ps (Suc n) = putc_events ps 0x20 @ spaces ps n"
  by (simp add: spaces_def)

lemma nl_pad_Some:
  "pins_ok s \<Longrightarrow> sint (hd_col s) \<le> sint (hd_cols s) \<Longrightarrow>
   nl_pad s = Some (s\<lparr>hd_col := hd_cols s,
     hw := hw s @ spaces (driven s) (nat (sint (hd_cols s) - sint (hd_col s)))\<rparr>)"
proof (induction s rule: nl_pad.induct)
  case (1 s)
  show ?case
  proof (cases "hd_col s <s hd_cols s")
    case False
    with "1.prems" have "sint (hd_col s) = sint (hd_cols s)"
      by (simp add: word_sless_alt)
    then have "hd_col s = hd_cols s"
      by (rule signed_word_eqI)
    then show ?thesis
      by (simp add: spaces_def)
  next
    case True
    then have lt: "sint (hd_col s) < sint (hd_cols s)" by (simp add: word_sless_alt)
    then have ne: "hd_col s \<noteq> hd_cols s" by auto
    let ?s1 = "s\<lparr>hd_col := hd_col s + 1, hw := hw s @ putc_events (driven s) 0x20\<rparr>"
    have p: "hd44780_putc s 0x20 = Some ?s1"
      using putc_write [OF "1.prems"(1) ne, of "0x20"] by simp
    have s1: "sint (hd_col s + 1) = sint (hd_col s) + 1" by (rule sint_succ [OF lt])
    have ok1: "pins_ok ?s1" using "1.prems"(1) by (simp add: pins_ok_gpio)
    have le1: "sint (hd_col ?s1) \<le> sint (hd_cols ?s1)" using lt s1 by simp
    have n: "nat (sint (hd_cols s) - sint (hd_col s))
        = Suc (nat (sint (hd_cols s) - (sint (hd_col s) + 1)))"
      using lt by simp
    have "nl_pad s = nl_pad ?s1"
      using True p by (subst nl_pad.simps) simp
    also have "\<dots> = Some (?s1\<lparr>hd_col := hd_cols ?s1,
        hw := hw ?s1 @ spaces (driven ?s1) (nat (sint (hd_cols ?s1) - sint (hd_col ?s1)))\<rparr>)"
      by (rule "1.IH" [OF True p ok1 le1])
    finally show ?thesis
      by (simp add: s1 n spaces_Suc)
  qed
qed

lemma tab_loop_Some:
  "pins_ok s \<Longrightarrow> sint (hd_col s) \<le> sint (hd_cols s) \<Longrightarrow>
   tab_loop i s =
     Some (s\<lparr>hd_col := hd_col s + of_nat (nat (min (sint i) (sint (hd_cols s) - sint (hd_col s)))),
       hw := hw s @ spaces (driven s) (nat (min (sint i) (sint (hd_cols s) - sint (hd_col s))))\<rparr>)"
proof (induction i s rule: tab_loop.induct)
  case (1 i s)
  show ?case
  proof (cases "0 <s i")
    case False
    then have "sint i \<le> 0" by (simp add: word_sless_alt)
    then have "nat (min (sint i) (sint (hd_cols s) - sint (hd_col s))) = 0" by simp
    with False show ?thesis by (simp add: spaces_def)
  next
    case True
    then have pos: "0 < sint i" by (simp add: word_sless_alt)
    have i1: "sint (i - 1) = sint i - 1"
      using sint_pred [of 0 i] pos by simp
    show ?thesis
    proof (cases "hd_col s = hd_cols s")
      case edge: True
      have "tab_loop i s = tab_loop (i - 1) s"
        using True putc_edge [OF edge, of "0x20"] by (subst tab_loop.simps) simp
      also have "\<dots> = Some (s\<lparr>hd_col := hd_col s + of_nat (nat (min (sint (i - 1)) (sint (hd_cols s) - sint (hd_col s)))),
         hw := hw s @ spaces (driven s) (nat (min (sint (i - 1)) (sint (hd_cols s) - sint (hd_col s))))\<rparr>)"
        by (rule "1.IH" [OF True putc_edge [OF edge] "1.prems"])
      finally show ?thesis using edge pos i1 by (simp add: spaces_def)
    next
      case ne: False
      with "1.prems" have lt: "sint (hd_col s) < sint (hd_cols s)"
        by (metis order_le_less signed_word_eqI)
      let ?s1 = "s\<lparr>hd_col := hd_col s + 1, hw := hw s @ putc_events (driven s) 0x20\<rparr>"
      have p: "hd44780_putc s 0x20 = Some ?s1"
        using putc_write [OF "1.prems"(1) ne, of "0x20"] by simp
      have s1: "sint (hd_col s + 1) = sint (hd_col s) + 1" by (rule sint_succ [OF lt])
      have ok1: "pins_ok ?s1" using "1.prems"(1) by (simp add: pins_ok_gpio)
      have le1: "sint (hd_col ?s1) \<le> sint (hd_cols ?s1)" using lt s1 by simp
      have n: "nat (min (sint i) (sint (hd_cols s) - sint (hd_col s)))
        = Suc (nat (min (sint i - 1) (sint (hd_cols s) - (sint (hd_col s) + 1))))"
        using lt pos by simp
      have "tab_loop i s = tab_loop (i - 1) ?s1"
        using True p by (subst tab_loop.simps) simp
      also have "\<dots> = Some (?s1\<lparr>hd_col := hd_col ?s1 + of_nat (nat (min (sint (i - 1)) (sint (hd_cols ?s1) - sint (hd_col ?s1)))),
         hw := hw ?s1 @ spaces (driven ?s1) (nat (min (sint (i - 1)) (sint (hd_cols ?s1) - sint (hd_col ?s1))))\<rparr>)"
        by (rule "1.IH" [OF True p ok1 le1])
      finally show ?thesis
        by (simp add: s1 i1 n spaces_Suc add.assoc)
    qed
  qed
qed

section \<open>The commands, one by one\<close>

lemma dispctrl_on_update [simp]:
  "dispctrl_on (s\<lparr>hw := h\<rparr>) = dispctrl_on s"
  "dispctrl_on (s\<lparr>hd_col := c\<rparr>) = dispctrl_on s"
  "dispctrl_on (s\<lparr>hd_row := r\<rparr>) = dispctrl_on s"
  by (simp_all add: dispctrl_on_def)

lemma setmode_val_update [simp]:
  "setmode_val (s\<lparr>hw := h\<rparr>) = setmode_val s"
  by (simp add: setmode_val_def)

declare nl_pad.simps [simp del] tab_loop.simps [simp del]

lemma calc_addr_update [simp]:
  "hd44780_calc_addr (s\<lparr>hw := h\<rparr>) = hd44780_calc_addr s"
  by (simp add: hd44780_calc_addr_def Let_def)

lemma clr_Some:
  "pins_ok s \<Longrightarrow>
   hd44780_command s CMD_CLR =
     Some (s\<lparr>hd_col := 0, hd_row := 0, hw := hw s @ clear_events (driven s)\<rparr>)"
  by (simp add: output_Some usleep_def clear_events_def)

lemma home_Some:
  "pins_ok s \<Longrightarrow>
   hd44780_command s CMD_HOME =
     Some (s\<lparr>hd_col := 0, hd_row := 0, hw := hw s @ home_events (driven s)\<rparr>)"
  by (simp add: output_Some usleep_def home_events_def)

lemma reset_sequence_Some:
  "pins_ok s \<Longrightarrow> reset_sequence s = Some (s\<lparr>hw := hw s @ reset_events s\<rparr>)"
  by (simp add: reset_sequence_def output_Some output4_Some usleep_def reset_events_def)

lemma reset_Some:
  "pins_ok s \<Longrightarrow>
   hd44780_command s CMD_RESET =
     Some (s\<lparr>hd_col := 0, hd_row := 0, hw := hw s @ reset_events s @ clear_events (driven s)\<rparr>)"
  by (simp add: reset_sequence_Some clr_Some del: hd44780_command.simps(2))

lemma flash_round_Some:
  "pins_ok s \<Longrightarrow> i < 3 \<Longrightarrow>
   flash_round i s =
     Some (s\<lparr>hw := hw s @ output_events (driven s) HD_COMMAND HD_CMD_DISPCTRL @ [Usleep 200000]
        @ output_events (driven s) HD_COMMAND (dispctrl_on s) @ [Usleep 200000]\<rparr>)"
  by (simp add: flash_round_def output_Some usleep_def)

lemma flash_Some:
  "pins_ok s \<Longrightarrow> hd44780_command s CMD_FLASH = Some (s\<lparr>hw := hw s @ flash_events s\<rparr>)"
  by (simp add: flash_round_Some flash_events_def numeral_2_eq_2)

lemma cr_Some:
  "pins_ok s \<Longrightarrow>
   hd44780_command s CMD_CR =
     Some (s\<lparr>hd_col := 0,
       hw := hw s @ output_events (driven s) HD_COMMAND
           (HD_CMD_SET_ADDR OR hd44780_calc_addr (s\<lparr>hd_col := 0\<rparr>)) @ [Usleep 1000]\<rparr>)"
  by (simp add: output_Some usleep_def hd44780_calc_addr_def Let_def)

lemma sint_of_int32:
  "- (2 ^ 31) \<le> k \<Longrightarrow> k < 2 ^ 31 \<Longrightarrow> sint (word_of_int k :: c_int) = k"
  by (simp add: sint_sbintrunc' signed_take_bit_int_eq_self)

lemma sint_add_nat:
  assumes "sint (a :: c_int) + int k \<le> sint (b :: c_int)"
  shows "sint (a + of_nat k) = sint a + int k"
proof -
  have "a + of_nat k = word_of_int (sint a + int k)" by simp
  moreover have "- (2 ^ 31) \<le> sint a + int k" using sint_ge [of a] by simp
  moreover have "sint a + int k < 2 ^ 31" using assms sint_lt [of b] by simp
  ultimately show ?thesis by (simp only: sint_of_int32)
qed

lemma tab_width:
  assumes "0 \<le> sint (c :: c_int)"
  shows "sint (8 - c_rem c 8) = 8 - sint c mod 8"
proof -
  have "sint c smod sint (8 :: c_int) = sint c mod 8"
    using assms by (simp add: smod_mod_positive)
  then have "c_rem c 8 = word_of_int (sint c mod 8)"
    by (simp add: c_rem_def)
  moreover have "(8 :: c_int) - word_of_int (sint c mod 8) = word_of_int (8 - sint c mod 8)"
    by simp
  ultimately have e: "8 - c_rem c 8 = (word_of_int (8 - sint c mod 8) :: c_int)"
    by (simp only:)
  have "0 \<le> sint c mod 8" "sint c mod 8 < 8" by simp_all
  then have "- (2 ^ 31) \<le> 8 - sint c mod 8" "8 - sint c mod 8 < 2 ^ 31" by simp_all
  then show ?thesis unfolding e by (rule sint_of_int32)
qed

lemma sint_add_le:
  assumes "0 \<le> sint (b :: c_int)"
  shows "sint ((a :: c_int) + b) \<le> sint a + sint b"
proof (cases "sint a + sint b < 2 ^ 31")
  case True
  moreover have "- (2 ^ 31) \<le> sint a + sint b" using sint_ge [of a] assms by simp
  ultimately show ?thesis
    by (simp add: sint_word_ariths signed_take_bit_int_eq_self)
next
  case False
  have "sint (a + b) < 2 ^ 31" using sint_lt [of "a + b"] by simp
  with False show ?thesis by simp
qed

lemma sint_sub:
  assumes "0 \<le> sint (a :: c_int)" "sint a \<le> sint (b :: c_int)"
  shows "sint (b - a) = sint b - sint a"
proof -
  have "sint b < 2 ^ 31" using sint_lt [of b] by simp
  with assms show ?thesis
    by (simp add: sint_word_ariths signed_take_bit_int_eq_self)
qed

lemma nl_advance:
  assumes ok: "pins_ok s" and le: "sint (hd_col s) \<le> sint (hd_cols s)"
    and row: "sint (hd_row s) < sint (hd_lines s) - 1"
  shows "hd44780_command s CMD_NL =
     Some (s\<lparr>hd_col := 0, hd_row := hd_row s + 1,
       hw := hw s @ spaces (driven s) (nat (sint (hd_cols s) - sint (hd_col s)))
         @ output_events (driven s) HD_COMMAND
             (HD_CMD_SET_ADDR OR hd44780_calc_addr (s\<lparr>hd_col := 0, hd_row := hd_row s + 1\<rparr>))
         @ [Usleep 1000]\<rparr>)"
proof -
  from row have "sint (hd_row s) < sint (hd_lines s)" by simp
  then have "sint (hd_lines s - 1) = sint (hd_lines s) - 1" by (rule sint_pred)
  with row have c: "hd_row s <s hd_lines s - 1" by (simp add: word_sless_alt)
  show ?thesis
    using c by (simp add: nl_pad_Some [OF ok le] output_Some ok usleep_def
        hd44780_calc_addr_def Let_def)
qed

lemma nl_last_row:
  assumes ok: "pins_ok s" and le: "sint (hd_col s) \<le> sint (hd_cols s)"
    and row: "sint (hd_row s) = sint (hd_lines s) - 1"
  shows "hd44780_command s CMD_NL =
     Some (s\<lparr>hd_col := hd_cols s,
       hw := hw s @ spaces (driven s) (nat (sint (hd_cols s) - sint (hd_col s)))\<rparr>)"
proof -
  from row have "sint (hd_row s) < sint (hd_lines s)" by simp
  then have "sint (hd_lines s - 1) = sint (hd_lines s) - 1" by (rule sint_pred)
  with row have c: "\<not> hd_row s <s hd_lines s - 1" by (simp add: word_sless_alt)
  show ?thesis
    using c by (simp add: nl_pad_Some [OF ok le])
qed

lemma tab_Some:
  assumes ok: "pins_ok s" and c0: "0 \<le> sint (hd_col s)"
    and le: "sint (hd_col s) \<le> sint (hd_cols s)"
  shows "hd44780_command s CMD_TAB =
     Some (s\<lparr>hd_col := hd_col s
           + of_nat (nat (min (8 - sint (hd_col s) mod 8) (sint (hd_cols s) - sint (hd_col s)))),
       hw := hw s @ spaces (driven s)
             (nat (min (8 - sint (hd_col s) mod 8) (sint (hd_cols s) - sint (hd_col s))))\<rparr>)"
proof -
  let ?w = "8 - c_rem (hd_col s) 8"
  let ?i = "if hd_cols s <s hd_col s + ?w then hd_cols s - hd_col s else ?w"
  have w: "sint ?w = 8 - sint (hd_col s) mod 8" by (rule tab_width [OF c0])
  have pos: "0 \<le> sint ?w" unfolding w using pos_mod_bound [of 8 "sint (hd_col s)"] by simp
  have m: "min (sint ?i) (sint (hd_cols s) - sint (hd_col s))
      = min (8 - sint (hd_col s) mod 8) (sint (hd_cols s) - sint (hd_col s))"
  proof (cases "hd_cols s <s hd_col s + ?w")
    case True
    then have "sint (hd_cols s) < sint (hd_col s + ?w)" by (simp add: word_sless_alt)
    also have "\<dots> \<le> sint (hd_col s) + sint ?w" by (rule sint_add_le [OF pos])
    finally have "sint (hd_cols s) - sint (hd_col s) \<le> 8 - sint (hd_col s) mod 8"
      using w by simp
    then show ?thesis by (simp only: True if_True sint_sub [OF c0 le] min.idem min.absorb2)
  next
    case False
    show ?thesis by (simp only: False if_False w)
  qed
  have "hd44780_command s CMD_TAB = tab_loop ?i s" by (simp add: Let_def)
  also note tab_loop_Some [OF ok le, of ?i]
  finally show ?thesis by (simp only: m)
qed

lemma bksp_Some:
  assumes ok: "pins_ok s" and c0: "0 < sint (hd_col s)"
    and le: "sint (hd_col s) \<le> sint (hd_cols s)"
  shows "hd44780_command s CMD_BKSP =
     Some (s\<lparr>hd_col := hd_col s - 1,
       hw := hw s
         @ output_events (driven s) HD_COMMAND (HD_CMD_MOVE OR HD_MOVE_CURSOR OR HD_MOVE_LEFT)
         @ putc_events (driven s) 0x20
         @ output_events (driven s) HD_COMMAND (HD_CMD_MOVE OR HD_MOVE_CURSOR OR HD_MOVE_LEFT)
         @ [Usleep 1000]\<rparr>)"
proof -
  from c0 have c: "0 <s hd_col s" by (simp add: word_sless_alt)
  have "sint (hd_col s - 1) = sint (hd_col s) - 1"
    using sint_pred [of 0 "hd_col s"] c0 by simp
  with le have "sint (hd_col s - 1) \<noteq> sint (hd_cols s)" by simp
  then have ne: "hd_col s - 1 \<noteq> hd_cols s" by auto
  show ?thesis
    using c ne by (simp add: output_Some ok putc_write usleep_def)
qed

lemma bksp_flash:
  assumes ok: "pins_ok s" and c0: "hd_col s = 0"
  shows "hd44780_command s CMD_BKSP = Some (s\<lparr>hw := hw s @ flash_events s @ [Usleep 1000]\<rparr>)"
  using c0 by (simp add: flash_Some [OF ok] usleep_def del: hd44780_command.simps(8))

section \<open>What a completed operation implies\<close>

text \<open>
  An operation that returns has passed every assertion on its way and has read a handle
  from the table at each pin it has set. So a call of \<open>hd44780_output\<close> that returns
  shows that the pins are ready, and a command that returns without them has sent nothing
  and changed nothing.
\<close>

lemma set_pin_SomeD:
  "hd44780_set_pin s pin on = Some s' \<Longrightarrow> gpio_line s pin \<noteq> None \<and> gpio_line s' = gpio_line s"
  by (auto simp: hd44780_set_pin_def gpio_line_def lines_at_def fun_eq_iff
      split: if_splits option.splits)

lemma strobe_SomeD:
  "hd44780_strobe s = Some s' \<Longrightarrow> gpio_line s HD_PIN_E \<noteq> None \<and> gpio_line s' = gpio_line s"
  by (auto simp: hd44780_strobe_def usleep_def split: Option.bind_splits dest!: set_pin_SomeD)

lemma output4_SomeD:
  assumes "hd44780_output4 s type data = Some s'"
  shows "pins_ok s"
proof -
  from assms obtain s1 s2 s3 where
    a: "hd44780_set_pin s HD_PIN_RW False = Some s1"
    and b: "(if type = HD_COMMAND then hd44780_set_pin s1 HD_PIN_RS False
          else hd44780_set_pin s1 HD_PIN_RS True) = Some s2"
    and c: "for_loop [0, 1, 2, 3]
            (\<lambda>i s. hd44780_set_pin s (HD_PIN_DAT0 + i) (bit data (i + 4))) s2 = Some s3"
    and d: "hd44780_strobe s3 = Some s'"
    by (auto simp: hd44780_output4_def split: Option.bind_splits)
  from a have p1: "gpio_line s HD_PIN_RW \<noteq> None" "gpio_line s1 = gpio_line s"
    by (auto dest: set_pin_SomeD)
  from b have p2: "gpio_line s1 HD_PIN_RS \<noteq> None" "gpio_line s2 = gpio_line s1"
    by (auto dest: set_pin_SomeD split: if_splits)
  from c obtain t0 t1 t2 where
    "hd44780_set_pin s2 (HD_PIN_DAT0 + 0) (bit data (0 + 4)) = Some t0"
    "hd44780_set_pin t0 (HD_PIN_DAT0 + 1) (bit data (1 + 4)) = Some t1"
    "hd44780_set_pin t1 (HD_PIN_DAT0 + 2) (bit data (2 + 4)) = Some t2"
    "hd44780_set_pin t2 (HD_PIN_DAT0 + 3) (bit data (3 + 4)) = Some s3"
    by (auto split: Option.bind_splits)
  then have p3: "gpio_line s2 HD_PIN_DAT0 \<noteq> None" "gpio_line s2 (HD_PIN_DAT0 + 1) \<noteq> None"
    "gpio_line s2 (HD_PIN_DAT0 + 2) \<noteq> None" "gpio_line s2 (HD_PIN_DAT0 + 3) \<noteq> None"
    "gpio_line s3 = gpio_line s2"
    by (auto dest!: set_pin_SomeD)
  from d have p4: "gpio_line s3 HD_PIN_E \<noteq> None" by (auto dest: strobe_SomeD)
  from p1 p2 p3 p4 show ?thesis by (simp add: pins_ok_gpio)
qed

lemma reset_SomeD: "hd44780_command s CMD_RESET = Some s' \<Longrightarrow> pins_ok s"
  by (auto simp: reset_sequence_def split: Option.bind_splits dest: output4_SomeD)

lemma output_after_output4:
  "hd44780_output s type data = do {
     s \<leftarrow> hd44780_output4 s type data;
     s \<leftarrow> for_loop [0, 1, 2, 3]
            (\<lambda>i s. hd44780_set_pin s (HD_PIN_DAT0 + i) (bit data i)) s;
     hd44780_strobe s
   }"
  by (simp add: hd44780_output_def hd44780_output4_def)

lemma output_SomeD: "hd44780_output s type data = Some s' \<Longrightarrow> pins_ok s"
  by (subst (asm) output_after_output4) (auto split: Option.bind_splits dest: output4_SomeD)

lemma putc_SomeD:
  "hd44780_putc s c = Some s' \<Longrightarrow> pins_ok s \<or> (hd_col s = hd_cols s \<and> s' = s)"
  by (auto simp: hd44780_putc_def split: if_splits Option.bind_splits dest: output_SomeD)

lemma nl_pad_SomeD: "nl_pad s = Some s' \<Longrightarrow> pins_ok s \<or> (\<not> hd_col s <s hd_cols s \<and> s' = s)"
  by (subst (asm) nl_pad.simps) (auto split: if_splits Option.bind_splits dest: putc_SomeD)

lemma tab_loop_SomeD: "tab_loop i s = Some s' \<Longrightarrow> pins_ok s \<or> s' = s"
proof (induction i s rule: tab_loop.induct)
  case (1 i s)
  show ?case
  proof (cases "0 <s i")
    case False
    with "1.prems" show ?thesis by (simp add: tab_loop.simps)
  next
    case True
    with "1.prems" obtain s1 where p: "hd44780_putc s 0x20 = Some s1"
      and t: "tab_loop (i - 1) s1 = Some s'"
      by (subst (asm) tab_loop.simps) (auto split: Option.bind_splits)
    from putc_SomeD [OF p] show ?thesis
    proof
      assume "pins_ok s"
      then show ?thesis ..
    next
      assume "hd_col s = hd_cols s \<and> s1 = s"
      with "1.IH" [OF True p t] show ?thesis by simp
    qed
  qed
qed

lemma command_SomeD: "hd44780_command s cmd = Some s' \<Longrightarrow> pins_ok s \<or> s' = s"
proof (cases cmd)
  case CMD_RESET
  assume "hd44780_command s cmd = Some s'"
  with CMD_RESET show ?thesis by (auto dest: reset_SomeD simp del: hd44780_command.simps)
next
  case CMD_CLR
  assume "hd44780_command s cmd = Some s'"
  with CMD_CLR show ?thesis by (auto split: Option.bind_splits dest: output_SomeD)
next
  case CMD_HOME
  assume "hd44780_command s cmd = Some s'"
  with CMD_HOME show ?thesis by (auto split: Option.bind_splits dest: output_SomeD)
next
  case CMD_CR
  assume "hd44780_command s cmd = Some s'"
  with CMD_CR have "pins_ok (s\<lparr>hd_col := 0\<rparr>)"
    by (auto split: Option.bind_splits dest: output_SomeD)
  then show ?thesis by simp
next
  case CMD_FLASH
  assume "hd44780_command s cmd = Some s'"
  with CMD_FLASH show ?thesis
    by (auto simp: flash_round_def split: Option.bind_splits dest: output_SomeD)
next
  case CMD_TAB
  assume "hd44780_command s cmd = Some s'"
  with CMD_TAB show ?thesis by (auto simp: Let_def dest: tab_loop_SomeD)
next
  case CMD_BKSP
  assume "hd44780_command s cmd = Some s'"
  with CMD_BKSP show ?thesis
    by (auto simp: flash_round_def split: Option.bind_splits if_splits dest: output_SomeD)
next
  case CMD_NL
  assume "hd44780_command s cmd = Some s'"
  with CMD_NL obtain s1 where n: "nl_pad s = Some s1"
    and r: "(if hd_row s1 <s hd_lines s1 - 1 then do {
       s \<leftarrow> Some (s1\<lparr>hd_row := hd_row s1 + 1\<rparr>);
       s \<leftarrow> Some (s\<lparr>hd_col := 0\<rparr>);
       s \<leftarrow> hd44780_output s HD_COMMAND (HD_CMD_SET_ADDR OR hd44780_calc_addr s);
       usleep 1000 s
     } else Some s1) = Some s'"
    by (auto split: Option.bind_splits)
  from nl_pad_SomeD [OF n] show ?thesis
  proof
    assume "pins_ok s"
    then show ?thesis ..
  next
    assume a: "\<not> hd_col s <s hd_cols s \<and> s1 = s"
    show ?thesis
    proof (cases "hd_row s1 <s hd_lines s1 - 1")
      case True
      with r have "pins_ok (s1\<lparr>hd_row := hd_row s1 + 1, hd_col := 0\<rparr>)"
        by (auto split: Option.bind_splits dest: output_SomeD)
      with a show ?thesis by simp
    next
      case False
      with r a show ?thesis by simp
    qed
  qed
qed

section \<open>The commands, as the specification describes them\<close>

lemma ready_pins_ok: "pins_ok ready_state"
  by (simp add: pins_ok_gpio gpio_line_def lines_at_def ready_state_def default_state_def
      default_lines_def default_pins_def HD_PIN_DAT0_def HD_PIN_RS_def HD_PIN_RW_def
      HD_PIN_E_def HD_PIN_BL_def HD_PIN_COUNT_def word_sle_eq word_sless_alt)

lemma driven_ready: "driven ready_state = default_pins"
  by (rule ext)
    (simp add: driven_def gpio_line_def lines_at_def ready_state_def default_state_def
      default_lines_def default_pins_def HD_PIN_DAT0_def HD_PIN_RS_def HD_PIN_RW_def
      HD_PIN_E_def HD_PIN_BL_def HD_PIN_COUNT_def word_sle_eq word_sless_alt)

text \<open>
  C2. For every prior state, once \<open>CMD_CLR\<close> or \<open>CMD_HOME\<close> has completed the cursor is at
  row 0, column 0. \<open>CMD_RESET\<close> is its reset sequence followed by \<open>case CMD_CLR\<close> on the
  state reached, so it ends with the cursor at (0,0) too, its last events being those of
  the clear command. The three commands complete whenever the pins are ready: each of the
  seven driven pins is assigned to a line 0 to 11 whose handle is in \<open>hd_gpio.lines\<close>.
  They set the lines read from that table.
\<close>

theorem clear_home_reset_cursor:
  "(hd44780_command s CMD_CLR = Some s' \<longrightarrow> hd_row s' = 0 \<and> hd_col s' = 0) \<and>
   (hd44780_command s CMD_HOME = Some s' \<longrightarrow> hd_row s' = 0 \<and> hd_col s' = 0) \<and>
   (hd44780_command s CMD_RESET = Some s' \<longrightarrow> hd_row s' = 0 \<and> hd_col s' = 0) \<and>
   hd44780_command s CMD_RESET =
     Option.bind (reset_sequence s) (\<lambda>s1. hd44780_command s1 CMD_CLR) \<and>
   (pins_ok s \<longrightarrow>
      hd44780_command s CMD_CLR =
        Some (s\<lparr>hd_col := 0, hd_row := 0, hw := hw s @ clear_events (driven s)\<rparr>) \<and>
      hd44780_command s CMD_HOME =
        Some (s\<lparr>hd_col := 0, hd_row := 0, hw := hw s @ home_events (driven s)\<rparr>) \<and>
      hd44780_command s CMD_RESET =
        Some (s\<lparr>hd_col := 0, hd_row := 0,
          hw := hw s @ reset_events s @ clear_events (driven s)\<rparr>))"
proof (intro conjI impI)
  assume c: "hd44780_command s CMD_CLR = Some s'"
  then have "pins_ok s" by (auto split: Option.bind_splits dest: output_SomeD)
  from clr_Some [OF this] c show "hd_row s' = 0" "hd_col s' = 0" by auto
next
  assume c: "hd44780_command s CMD_HOME = Some s'"
  then have "pins_ok s" by (auto split: Option.bind_splits dest: output_SomeD)
  from home_Some [OF this] c show "hd_row s' = 0" "hd_col s' = 0" by auto
next
  assume c: "hd44780_command s CMD_RESET = Some s'"
  then have "pins_ok s" by (rule reset_SomeD)
  from reset_Some [OF this] c show "hd_row s' = 0" "hd_col s' = 0" by auto
next
  show "hd44780_command s CMD_RESET =
      Option.bind (reset_sequence s) (\<lambda>s1. hd44780_command s1 CMD_CLR)"
    by (rule hd44780_command.simps(1))
next
  assume ok: "pins_ok s"
  show "hd44780_command s CMD_CLR =
      Some (s\<lparr>hd_col := 0, hd_row := 0, hw := hw s @ clear_events (driven s)\<rparr>)"
    by (rule clr_Some [OF ok])
  show "hd44780_command s CMD_HOME =
      Some (s\<lparr>hd_col := 0, hd_row := 0, hw := hw s @ home_events (driven s)\<rparr>)"
    by (rule home_Some [OF ok])
  show "hd44780_command s CMD_RESET =
      Some (s\<lparr>hd_col := 0, hd_row := 0, hw := hw s @ reset_events s @ clear_events (driven s)\<rparr>)"
    by (rule reset_Some [OF ok])
qed

theorem clear_home_reset_cursor_witness:
  "pins_ok (ready_state\<lparr>hd_col := 7, hd_row := 1\<rparr>) \<and>
   map_option (\<lambda>s. (hd_row s, hd_col s))
     (hd44780_command (ready_state\<lparr>hd_col := 7, hd_row := 1\<rparr>) CMD_CLR) = Some (0, 0) \<and>
   map_option (\<lambda>s. (hd_row s, hd_col s))
     (hd44780_command (ready_state\<lparr>hd_col := 7, hd_row := 1\<rparr>) CMD_HOME) = Some (0, 0) \<and>
   map_option (\<lambda>s. (hd_row s, hd_col s))
     (hd44780_command (ready_state\<lparr>hd_col := 7, hd_row := 1\<rparr>) CMD_RESET) = Some (0, 0)"
proof -
  let ?s = "ready_state\<lparr>hd_col := 7, hd_row := 1\<rparr>"
  have ok: "pins_ok ?s" using ready_pins_ok by simp
  note t = clear_home_reset_cursor [of ?s ?s, THEN conjunct2, THEN conjunct2,
      THEN conjunct2, THEN conjunct2, rule_format, OF ok]
  from t have "map_option (\<lambda>s. (hd_row s, hd_col s)) (hd44780_command ?s CMD_CLR) = Some (0, 0)"
    by (simp del: hd44780_command.simps)
  moreover from t
  have "map_option (\<lambda>s. (hd_row s, hd_col s)) (hd44780_command ?s CMD_HOME) = Some (0, 0)"
    by (simp del: hd44780_command.simps)
  moreover from t
  have "map_option (\<lambda>s. (hd_row s, hd_col s)) (hd44780_command ?s CMD_RESET) = Some (0, 0)"
    by (simp del: hd44780_command.simps)
  ultimately show ?thesis using ok by simp
qed

lemma tab_count:
  assumes "sint (hd_col s) \<le> sint (hd_cols s)"
  shows "int (nat (min (8 - sint (hd_col s) mod 8) (sint (hd_cols s) - sint (hd_col s))))
           = tab_stop s - sint (hd_col s)"
    and "sint (hd_col s) \<le> tab_stop s" and "tab_stop s \<le> sint (hd_cols s)"
proof -
  have m: "0 < 8 - sint (hd_col s) mod 8" using pos_mod_bound [of 8 "sint (hd_col s)"] by simp
  show "int (nat (min (8 - sint (hd_col s) mod 8) (sint (hd_cols s) - sint (hd_col s))))
      = tab_stop s - sint (hd_col s)"
    using assms m unfolding tab_stop_def by linarith
  show "sint (hd_col s) \<le> tab_stop s" "tab_stop s \<le> sint (hd_cols s)"
    using assms m unfolding tab_stop_def by linarith+
qed

text \<open>
  C4. For every column c with 0 \<le> c \<le> columns, with the pins ready (each of the seven
  driven pins assigned to a line 0 to 11 whose handle is in \<open>hd_gpio.lines\<close>), \<open>CMD_TAB\<close>
  writes spaces, as many as lie between c and min(columns, c + (8 - c % 8)), the cursor
  column afterwards is that minimum, and the row is unchanged.
\<close>

theorem tab_to_next_stop:
  assumes "pins_ok s" and "0 \<le> sint (hd_col s)" and "sint (hd_col s) \<le> sint (hd_cols s)"
  shows "\<exists>s'. hd44780_command s CMD_TAB = Some s' \<and>
           sint (hd_col s') = tab_stop s \<and>
           hd_row s' = hd_row s \<and>
           hw s' = hw s @ spaces (driven s) (nat (tab_stop s - sint (hd_col s)))"
proof -
  let ?k = "nat (min (8 - sint (hd_col s) mod 8) (sint (hd_cols s) - sint (hd_col s)))"
  have k: "int ?k = tab_stop s - sint (hd_col s)"
    by (rule tab_count(1) [OF assms(3)])
  with tab_count(3) [OF assms(3)] have "sint (hd_col s) + int ?k \<le> sint (hd_cols s)"
    by simp
  then have "sint (hd_col s + of_nat ?k) = sint (hd_col s) + int ?k"
    by (rule sint_add_nat)
  with k have c: "sint (hd_col s + of_nat ?k) = tab_stop s" by simp
  have n: "?k = nat (tab_stop s - sint (hd_col s))" by (simp only: k [symmetric] nat_int)
  show ?thesis
    using tab_Some [OF assms] c n by simp
qed

theorem tab_to_next_stop_witness:
  "pins_ok (ready_state\<lparr>hd_cols := 20, hd_col := 18\<rparr>) \<and>
   (0 :: int) \<le> sint (hd_col (ready_state\<lparr>hd_cols := 20, hd_col := 18\<rparr>)) \<and>
   sint (hd_col (ready_state\<lparr>hd_cols := 20, hd_col := 18\<rparr>))
     \<le> sint (hd_cols (ready_state\<lparr>hd_cols := 20, hd_col := 18\<rparr>)) \<and>
   tab_stop (ready_state\<lparr>hd_cols := 20, hd_col := 18\<rparr>) = 20 \<and>
   map_option (\<lambda>s. (sint (hd_col s), hd_row s))
     (hd44780_command (ready_state\<lparr>hd_cols := 20, hd_col := 18\<rparr>) CMD_TAB) = Some (20, 0)"
proof -
  let ?s = "ready_state\<lparr>hd_cols := 20, hd_col := 18\<rparr>"
  have ok: "pins_ok ?s" using ready_pins_ok by (simp add: pins_ok_gpio)
  have r: "0 \<le> sint (hd_col ?s)" "sint (hd_col ?s) \<le> sint (hd_cols ?s)" by simp_all
  have t: "tab_stop ?s = 20" by (simp add: tab_stop_def)
  have "hd_row ?s = 0" by (simp add: ready_state_def default_state_def)
  with tab_to_next_stop [OF ok r] t ok show ?thesis by auto
qed

text \<open>
  C3. From a column within the line, with the pins ready (each of the seven driven pins
  assigned to a line 0 to 11 whose handle is in the table): on a row before the last one
  (row < lines - 1), \<open>CMD_NL\<close> writes spaces until the column equals the configured
  column count, then increments the row, sets the column to 0 and sends the set-address
  command for the new position: its byte is \<open>HD_CMD_SET_ADDR\<close> or-ed with the low byte
  of the address that the specification gives for the new row and column 0, and under an
  accepted geometry it is 0x80 plus that address. On the last row (row = lines - 1) it
  only pads: the cursor is then at (lines - 1, columns), where every further character
  write is a no-op.
\<close>

theorem newline_pads_then_advances:
  assumes "pins_ok s" and "sint (hd_col s) \<le> sint (hd_cols s)"
  shows "(sint (hd_row s) < sint (hd_lines s) - 1 \<longrightarrow>
            hd44780_command s CMD_NL =
              Some (s\<lparr>hd_col := 0, hd_row := hd_row s + 1,
                hw := hw s @ spaces (driven s) (nat (sint (hd_cols s) - sint (hd_col s)))
                  @ output_events (driven s) HD_COMMAND
                      (HD_CMD_SET_ADDR OR
                         word_of_int (dram_address (s\<lparr>hd_col := 0, hd_row := hd_row s + 1\<rparr>)))
                  @ [Usleep 1000]\<rparr>) \<and>
            sint (hd_row s + 1) = sint (hd_row s) + 1 \<and>
            ((hd_lines s = 1 \<or> hd_lines s = 2 \<or> hd_lines s = 4) \<and> 0 < sint (hd_cols s) \<and>
             sint (hd_lines s) * sint (hd_cols s) \<le> 80 \<and> 0 \<le> sint (hd_row s) \<longrightarrow>
               uint (HD_CMD_SET_ADDR OR
                 (word_of_int (dram_address (s\<lparr>hd_col := 0, hd_row := hd_row s + 1\<rparr>)) :: uint8))
               = 0x80 + dram_address (s\<lparr>hd_col := 0, hd_row := hd_row s + 1\<rparr>))) \<and>
         (sint (hd_row s) = sint (hd_lines s) - 1 \<longrightarrow>
            hd44780_command s CMD_NL =
              Some (s\<lparr>hd_col := hd_cols s,
                hw := hw s @ spaces (driven s) (nat (sint (hd_cols s) - sint (hd_col s)))\<rparr>) \<and>
            (\<forall>c. hd44780_putc
                   (s\<lparr>hd_col := hd_cols s,
                     hw := hw s @ spaces (driven s) (nat (sint (hd_cols s) - sint (hd_col s)))\<rparr>) c
                 = Some (s\<lparr>hd_col := hd_cols s,
                     hw := hw s @ spaces (driven s) (nat (sint (hd_cols s) - sint (hd_col s)))\<rparr>)))"
proof (intro conjI impI allI)
  assume r: "sint (hd_row s) < sint (hd_lines s) - 1"
  show "hd44780_command s CMD_NL =
      Some (s\<lparr>hd_col := 0, hd_row := hd_row s + 1,
        hw := hw s @ spaces (driven s) (nat (sint (hd_cols s) - sint (hd_col s)))
          @ output_events (driven s) HD_COMMAND
              (HD_CMD_SET_ADDR OR
                 word_of_int (dram_address (s\<lparr>hd_col := 0, hd_row := hd_row s + 1\<rparr>)))
          @ [Usleep 1000]\<rparr>)"
    using nl_advance [OF assms r] by (simp only: calc_addr_dram)
  from r have "sint (hd_row s) < sint (hd_lines s)" by simp
  then show n: "sint (hd_row s + 1) = sint (hd_row s) + 1" by (rule sint_succ)
  assume g: "(hd_lines s = 1 \<or> hd_lines s = 2 \<or> hd_lines s = 4) \<and> 0 < sint (hd_cols s) \<and>
      sint (hd_lines s) * sint (hd_cols s) \<le> 80 \<and> 0 \<le> sint (hd_row s)"
  let ?t = "s\<lparr>hd_col := 0, hd_row := hd_row s + 1\<rparr>"
  from g r n have "cursor_ok ?t" by (simp add: cursor_ok_def)
  moreover from g have "hd_lines ?t = 1 \<or> hd_lines ?t = 2 \<or> hd_lines ?t = 4"
    "0 < sint (hd_cols ?t)" "sint (hd_lines ?t) * sint (hd_cols ?t) \<le> 80"
    by simp_all
  ultimately have "0 \<le> dram_address ?t \<and> dram_address ?t < 0x80"
    by (intro dram_address_range)
  then show "uint (HD_CMD_SET_ADDR OR (word_of_int (dram_address ?t) :: uint8))
      = 0x80 + dram_address ?t"
    by (intro set_addr_byte) simp_all
next
  assume r: "sint (hd_row s) = sint (hd_lines s) - 1"
  show "hd44780_command s CMD_NL =
      Some (s\<lparr>hd_col := hd_cols s,
        hw := hw s @ spaces (driven s) (nat (sint (hd_cols s) - sint (hd_col s)))\<rparr>)"
    by (rule nl_last_row [OF assms r])
next
  fix c
  show "hd44780_putc
         (s\<lparr>hd_col := hd_cols s,
           hw := hw s @ spaces (driven s) (nat (sint (hd_cols s) - sint (hd_col s)))\<rparr>) c
       = Some (s\<lparr>hd_col := hd_cols s,
           hw := hw s @ spaces (driven s) (nat (sint (hd_cols s) - sint (hd_col s)))\<rparr>)"
    by (rule putc_edge) simp
qed

theorem newline_pads_then_advances_witness:
  "pins_ok (ready_state\<lparr>hd_col := 14\<rparr>) \<and>
   dram_address (ready_state\<lparr>hd_col := 0, hd_row := 1\<rparr>) = 0x40 \<and>
   map_option (\<lambda>s. (hd_row s, hd_col s, hw s))
     (hd44780_command (ready_state\<lparr>hd_col := 14\<rparr>) CMD_NL)
     = Some (1, 0, spaces default_pins 2
         @ output_events default_pins HD_COMMAND 0xC0 @ [Usleep 1000]) \<and>
   pins_ok (ready_state\<lparr>hd_col := 14, hd_row := 1\<rparr>) \<and>
   map_option (\<lambda>s. (hd_row s, hd_col s, hw s))
     (hd44780_command (ready_state\<lparr>hd_col := 14, hd_row := 1\<rparr>) CMD_NL)
     = Some (1, 16, spaces default_pins 2)"
proof -
  let ?a = "ready_state\<lparr>hd_col := 14\<rparr>"
  let ?b = "ready_state\<lparr>hd_col := 14, hd_row := 1\<rparr>"
  let ?t = "?a\<lparr>hd_col := 0, hd_row := hd_row ?a + 1\<rparr>"
  have oka: "pins_ok ?a" and okb: "pins_ok ?b" using ready_pins_ok by simp_all
  have d: "driven ?a = default_pins" "driven ?b = default_pins" by (simp_all add: driven_ready)
  have a: "sint (hd_col ?a) \<le> sint (hd_cols ?a)" "sint (hd_row ?a) < sint (hd_lines ?a) - 1"
    by (simp_all add: ready_state_def default_state_def)
  have b: "sint (hd_col ?b) \<le> sint (hd_cols ?b)" "sint (hd_row ?b) = sint (hd_lines ?b) - 1"
    by (simp_all add: ready_state_def default_state_def)
  have g: "(hd_lines ?a = 1 \<or> hd_lines ?a = 2 \<or> hd_lines ?a = 4) \<and> 0 < sint (hd_cols ?a) \<and>
      sint (hd_lines ?a) * sint (hd_cols ?a) \<le> 80 \<and> 0 \<le> sint (hd_row ?a)"
    by (simp add: ready_state_def default_state_def)
  have m: "dram_address ?t = 0x40" "dram_address (ready_state\<lparr>hd_col := 0, hd_row := 1\<rparr>) = 0x40"
    by (simp_all add: dram_address_def ready_state_def default_state_def)
  note t = newline_pads_then_advances [OF oka a(1), THEN conjunct1, rule_format, OF a(2)]
  from t g have "uint (HD_CMD_SET_ADDR OR (word_of_int (dram_address ?t) :: uint8))
      = 0x80 + dram_address ?t"
    by blast
  then have "uint (HD_CMD_SET_ADDR OR (word_of_int (dram_address ?t) :: uint8)) = uint (0xC0 :: uint8)"
    by (simp only: m) simp
  then have addr: "HD_CMD_SET_ADDR OR (word_of_int (dram_address ?t) :: uint8) = 0xC0"
    by (rule word_uint_eqI)
  from t
  have "hd44780_command ?a CMD_NL =
      Some (?a\<lparr>hd_col := 0, hd_row := hd_row ?a + 1,
        hw := hw ?a @ spaces (driven ?a) (nat (sint (hd_cols ?a) - sint (hd_col ?a)))
          @ output_events (driven ?a) HD_COMMAND
              (HD_CMD_SET_ADDR OR word_of_int (dram_address ?t))
          @ [Usleep 1000]\<rparr>)"
    by blast
  then have ra: "map_option (\<lambda>s. (hd_row s, hd_col s, hw s)) (hd44780_command ?a CMD_NL)
     = Some (1, 0, spaces default_pins 2 @ output_events default_pins HD_COMMAND 0xC0 @ [Usleep 1000])"
    unfolding addr d by (simp add: ready_state_def default_state_def)
  from newline_pads_then_advances [OF okb b(1)] b(2)
  have "hd44780_command ?b CMD_NL =
      Some (?b\<lparr>hd_col := hd_cols ?b,
        hw := hw ?b @ spaces (driven ?b) (nat (sint (hd_cols ?b) - sint (hd_col ?b)))\<rparr>)"
    by blast
  then have rb: "map_option (\<lambda>s. (hd_row s, hd_col s, hw s)) (hd44780_command ?b CMD_NL)
     = Some (1, 16, spaces default_pins 2)"
    unfolding d by (simp add: ready_state_def default_state_def)
  from oka okb ra rb m(2) show ?thesis by simp
qed

text \<open>
  C5. From a column within the line, with the pins ready (each of the seven driven pins
  assigned to a line 0 to 11 whose handle is in \<open>hd_gpio.lines\<close>): with column > 0,
  \<open>CMD_BKSP\<close> decrements the
  cursor column by exactly 1, and what it sends is: cursor left, the data byte of a space,
  cursor left; so the space is written to the cell before the original column, where the
  cursor then stands. With column = 0 it performs the line-toggle sequence of \<open>CMD_FLASH\<close>
  (followed by one more delay) and leaves the column at 0.
\<close>

theorem backspace_erases_or_flashes:
  assumes "pins_ok s" and "sint (hd_col s) \<le> sint (hd_cols s)"
  shows "(0 < sint (hd_col s) \<longrightarrow>
            hd44780_command s CMD_BKSP =
              Some (s\<lparr>hd_col := hd_col s - 1,
                hw := hw s
                  @ output_events (driven s) HD_COMMAND (HD_CMD_MOVE OR HD_MOVE_CURSOR OR HD_MOVE_LEFT)
                  @ putc_events (driven s) 0x20
                  @ output_events (driven s) HD_COMMAND (HD_CMD_MOVE OR HD_MOVE_CURSOR OR HD_MOVE_LEFT)
                  @ [Usleep 1000]\<rparr>) \<and>
            sint (hd_col s - 1) = sint (hd_col s) - 1) \<and>
         (hd_col s = 0 \<longrightarrow>
            hd44780_command s CMD_FLASH = Some (s\<lparr>hw := hw s @ flash_events s\<rparr>) \<and>
            hd44780_command s CMD_BKSP = Some (s\<lparr>hw := hw s @ flash_events s @ [Usleep 1000]\<rparr>))"
proof (intro conjI impI)
  assume c: "0 < sint (hd_col s)"
  show "hd44780_command s CMD_BKSP =
      Some (s\<lparr>hd_col := hd_col s - 1,
        hw := hw s
          @ output_events (driven s) HD_COMMAND (HD_CMD_MOVE OR HD_MOVE_CURSOR OR HD_MOVE_LEFT)
          @ putc_events (driven s) 0x20
          @ output_events (driven s) HD_COMMAND (HD_CMD_MOVE OR HD_MOVE_CURSOR OR HD_MOVE_LEFT)
          @ [Usleep 1000]\<rparr>)"
    by (rule bksp_Some [OF assms(1) c assms(2)])
  show "sint (hd_col s - 1) = sint (hd_col s) - 1"
    using sint_pred [of 0 "hd_col s"] c by simp
next
  assume c: "hd_col s = 0"
  show "hd44780_command s CMD_FLASH = Some (s\<lparr>hw := hw s @ flash_events s\<rparr>)"
    by (rule flash_Some [OF assms(1)])
  show "hd44780_command s CMD_BKSP = Some (s\<lparr>hw := hw s @ flash_events s @ [Usleep 1000]\<rparr>)"
    by (rule bksp_flash [OF assms(1) c])
qed

theorem backspace_erases_or_flashes_witness:
  "pins_ok (ready_state\<lparr>hd_col := 5\<rparr>) \<and>
   map_option (\<lambda>s. (sint (hd_col s), hw s))
     (hd44780_command (ready_state\<lparr>hd_col := 5\<rparr>) CMD_BKSP)
     = Some (4, output_events default_pins HD_COMMAND 0x10 @ putc_events default_pins 0x20
          @ output_events default_pins HD_COMMAND 0x10 @ [Usleep 1000]) \<and>
   pins_ok ready_state \<and>
   map_option (\<lambda>s. (sint (hd_col s), hw s)) (hd44780_command ready_state CMD_BKSP)
     = Some (0, flash_events ready_state @ [Usleep 1000])"
proof -
  let ?a = "ready_state\<lparr>hd_col := 5\<rparr>"
  have oka: "pins_ok ?a" using ready_pins_ok by simp
  have a: "sint (hd_col ?a) \<le> sint (hd_cols ?a)" "0 < sint (hd_col ?a)"
    by (simp_all add: ready_state_def default_state_def)
  have b: "sint (hd_col ready_state) \<le> sint (hd_cols ready_state)" "hd_col ready_state = 0"
    by (simp_all add: ready_state_def default_state_def)
  have mv: "HD_CMD_MOVE OR HD_MOVE_CURSOR OR HD_MOVE_LEFT = 0x10"
    by (simp add: HD_CMD_MOVE_def HD_MOVE_CURSOR_def HD_MOVE_LEFT_def)
  have d: "driven ?a = default_pins" by (simp add: driven_ready)
  from backspace_erases_or_flashes [OF oka a(1)] a(2)
  have "hd44780_command ?a CMD_BKSP =
      Some (?a\<lparr>hd_col := hd_col ?a - 1,
        hw := hw ?a
          @ output_events (driven ?a) HD_COMMAND (HD_CMD_MOVE OR HD_MOVE_CURSOR OR HD_MOVE_LEFT)
          @ putc_events (driven ?a) 0x20
          @ output_events (driven ?a) HD_COMMAND (HD_CMD_MOVE OR HD_MOVE_CURSOR OR HD_MOVE_LEFT)
          @ [Usleep 1000]\<rparr>)"
    by blast
  then have ra: "map_option (\<lambda>s. (sint (hd_col s), hw s)) (hd44780_command ?a CMD_BKSP)
     = Some (4, output_events default_pins HD_COMMAND 0x10 @ putc_events default_pins 0x20
          @ output_events default_pins HD_COMMAND 0x10 @ [Usleep 1000])"
    unfolding mv d by (simp add: ready_state_def default_state_def)
  from backspace_erases_or_flashes [OF ready_pins_ok b(1)] b(2)
  have "hd44780_command ready_state CMD_BKSP
      = Some (ready_state\<lparr>hw := hw ready_state @ flash_events ready_state @ [Usleep 1000]\<rparr>)"
    by blast
  then have rb: "map_option (\<lambda>s. (sint (hd_col s), hw s)) (hd44780_command ready_state CMD_BKSP)
     = Some (0, flash_events ready_state @ [Usleep 1000])"
    by (simp add: ready_state_def default_state_def)
  from oka ready_pins_ok ra rb show ?thesis by simp
qed

text \<open>
  C7. When escape-pending is set, \<open>'R'\<close> runs \<open>CMD_RESET\<close> and \<open>'H'\<close> runs \<open>CMD_HOME\<close>
  (both to completion when the pins are ready: each of the seven driven pins assigned to a
  line 0 to 11 whose handle is in \<open>hd_gpio.lines\<close>), any other character produces no
  command, and escape-pending is cleared in all three cases. When it is clear, the
  escape character sets it and nothing is emitted.
\<close>

theorem escape_sequences:
  "(esc s \<noteq> 0 \<longrightarrow>
      do_char s 0x52 = map_option (\<lambda>s'. s'\<lparr>esc := 0\<rparr>) (hd44780_command s CMD_RESET) \<and>
      do_char s 0x48 = map_option (\<lambda>s'. s'\<lparr>esc := 0\<rparr>) (hd44780_command s CMD_HOME) \<and>
      (ch \<noteq> 0x52 \<and> ch \<noteq> 0x48 \<longrightarrow> do_char s ch = Some (s\<lparr>esc := 0\<rparr>)) \<and>
      (pins_ok s \<longrightarrow>
         do_char s 0x52 =
           Some (s\<lparr>hd_col := 0, hd_row := 0, esc := 0,
             hw := hw s @ reset_events s @ clear_events (driven s)\<rparr>) \<and>
         do_char s 0x48 =
           Some (s\<lparr>hd_col := 0, hd_row := 0, esc := 0, hw := hw s @ home_events (driven s)\<rparr>))) \<and>
   (esc s = 0 \<longrightarrow> do_char s 27 = Some (s\<lparr>esc := 1\<rparr>))"
proof (intro conjI impI)
  assume e: "esc s \<noteq> 0"
  show r: "do_char s 0x52 = map_option (\<lambda>s'. s'\<lparr>esc := 0\<rparr>) (hd44780_command s CMD_RESET)"
    using e by (cases "hd44780_command s CMD_RESET") (simp_all add: do_char_def del: hd44780_command.simps)
  show h: "do_char s 0x48 = map_option (\<lambda>s'. s'\<lparr>esc := 0\<rparr>) (hd44780_command s CMD_HOME)"
    using e by (cases "hd44780_command s CMD_HOME") (simp_all add: do_char_def del: hd44780_command.simps)
  {
    assume "ch \<noteq> 0x52 \<and> ch \<noteq> 0x48"
    then show "do_char s ch = Some (s\<lparr>esc := 0\<rparr>)"
      using e by (simp add: do_char_def)
  }
  {
    assume ok: "pins_ok s"
    show "do_char s 0x52 =
        Some (s\<lparr>hd_col := 0, hd_row := 0, esc := 0,
          hw := hw s @ reset_events s @ clear_events (driven s)\<rparr>)"
      unfolding r reset_Some [OF ok] by simp
    show "do_char s 0x48 =
        Some (s\<lparr>hd_col := 0, hd_row := 0, esc := 0, hw := hw s @ home_events (driven s)\<rparr>)"
      unfolding h home_Some [OF ok] by simp
  }
next
  assume "esc s = 0"
  then show "do_char s 27 = Some (s\<lparr>esc := 1\<rparr>)"
    by (simp add: do_char_def)
qed

theorem escape_sequences_witness:
  "esc (ready_state\<lparr>esc := 1\<rparr>) \<noteq> 0 \<and> pins_ok (ready_state\<lparr>esc := 1\<rparr>) \<and>
   do_char (ready_state\<lparr>esc := 1\<rparr>) 0x52 =
     Some (ready_state\<lparr>hw := reset_events ready_state @ clear_events default_pins\<rparr>) \<and>
   do_char (ready_state\<lparr>esc := 1\<rparr>) 0x48 =
     Some (ready_state\<lparr>hw := home_events default_pins\<rparr>) \<and>
   do_char (ready_state\<lparr>esc := 1\<rparr>) 0x41 = Some ready_state \<and>
   esc ready_state = 0 \<and>
   do_char ready_state 27 = Some (ready_state\<lparr>esc := 1\<rparr>)"
proof -
  let ?a = "ready_state\<lparr>esc := 1\<rparr>"
  have oka: "pins_ok ?a" using ready_pins_ok by simp
  have e: "esc ?a \<noteq> 0" "esc ready_state = 0" by (simp_all add: ready_state_def default_state_def)
  have ev: "reset_events ?a = reset_events ready_state"
    by (simp add: reset_events_def setmode_val_def dispctrl_on_def)
  have ne: "(0x41 :: uint8) \<noteq> 0x52 \<and> (0x41 :: uint8) \<noteq> 0x48" by simp
  have d: "driven ?a = default_pins" by (simp add: driven_ready)
  note t = escape_sequences [of ?a "0x41", THEN conjunct1, rule_format, OF e(1)]
  from t oka have "do_char ?a 0x52 =
      Some (?a\<lparr>hd_col := 0, hd_row := 0, esc := 0,
        hw := hw ?a @ reset_events ?a @ clear_events (driven ?a)\<rparr>)"
    by blast
  moreover from t oka have "do_char ?a 0x48 =
      Some (?a\<lparr>hd_col := 0, hd_row := 0, esc := 0, hw := hw ?a @ home_events (driven ?a)\<rparr>)"
    by blast
  moreover from t ne have "do_char ?a 0x41 = Some (?a\<lparr>esc := 0\<rparr>)"
    by blast
  moreover from escape_sequences [of ready_state "0x41"] e(2)
  have "do_char ready_state 27 = Some (ready_state\<lparr>esc := 1\<rparr>)"
    by blast
  ultimately show ?thesis
    using e oka unfolding d by (simp add: ev) (simp add: ready_state_def default_state_def)
qed

section \<open>The range of the cursor\<close>

lemma cursor_ok_home:
  "cursor_ok s \<Longrightarrow> cursor_ok (s\<lparr>hd_col := 0, hd_row := 0, hw := h\<rparr>)"
  by (simp add: cursor_ok_def)

lemma command_keeps_cursor:
  assumes ok: "pins_ok s" and cur: "cursor_ok s"
  shows "\<exists>s'. hd44780_command s cmd = Some s' \<and> cursor_ok s' \<and> pins_ok s' \<and>
           hd_lines s' = hd_lines s \<and> hd_cols s' = hd_cols s"
proof -
  from cur have r: "0 \<le> sint (hd_row s)" "sint (hd_row s) < sint (hd_lines s)"
    and c: "0 \<le> sint (hd_col s)" "sint (hd_col s) \<le> sint (hd_cols s)"
    by (simp_all add: cursor_ok_def)
  show ?thesis
  proof (cases cmd)
    case CMD_RESET
    with reset_Some [OF ok] cursor_ok_home [OF cur] ok show ?thesis
      by (simp del: hd44780_command.simps)
  next
    case CMD_CLR
    with clr_Some [OF ok] cursor_ok_home [OF cur] ok show ?thesis
      by (simp del: hd44780_command.simps)
  next
    case CMD_HOME
    with home_Some [OF ok] cursor_ok_home [OF cur] ok show ?thesis
      by (simp del: hd44780_command.simps)
  next
    case CMD_CR
    with cr_Some [OF ok] cur ok show ?thesis
      by (simp add: cursor_ok_def del: hd44780_command.simps)
  next
    case CMD_FLASH
    with flash_Some [OF ok] cur ok show ?thesis
      by (simp add: cursor_ok_def del: hd44780_command.simps)
  next
    case CMD_TAB
    let ?k = "nat (min (8 - sint (hd_col s) mod 8) (sint (hd_cols s) - sint (hd_col s)))"
    note k = tab_count [OF c(2)]
    from k(1) k(3) have "sint (hd_col s) + int ?k \<le> sint (hd_cols s)" by simp
    then have "sint (hd_col s + of_nat ?k) = sint (hd_col s) + int ?k"
      by (rule sint_add_nat)
    with k have "0 \<le> sint (hd_col s + of_nat ?k)" "sint (hd_col s + of_nat ?k) \<le> sint (hd_cols s)"
      using c(1) by simp_all
    with tab_Some [OF ok c] r ok CMD_TAB show ?thesis
      by (simp add: cursor_ok_def del: hd44780_command.simps)
  next
    case CMD_NL
    show ?thesis
    proof (cases "sint (hd_row s) < sint (hd_lines s) - 1")
      case True
      have "sint (hd_row s + 1) = sint (hd_row s) + 1" by (rule sint_succ [OF r(2)])
      with nl_advance [OF ok c(2) True] True r c ok CMD_NL show ?thesis
        by (simp add: cursor_ok_def del: hd44780_command.simps)
    next
      case False
      with r have "sint (hd_row s) = sint (hd_lines s) - 1" by simp
      with nl_last_row [OF ok c(2)] r c ok CMD_NL show ?thesis
        by (simp add: cursor_ok_def del: hd44780_command.simps)
    qed
  next
    case CMD_BKSP
    show ?thesis
    proof (cases "0 < sint (hd_col s)")
      case True
      have "sint (hd_col s - 1) = sint (hd_col s) - 1"
        using sint_pred [of 0 "hd_col s"] True by simp
      with bksp_Some [OF ok True c(2)] True r c ok CMD_BKSP show ?thesis
        by (simp add: cursor_ok_def del: hd44780_command.simps)
    next
      case False
      with c have "sint (hd_col s) = sint (0 :: c_int)" by simp
      then have "hd_col s = 0" by (rule signed_word_eqI)
      with bksp_flash [OF ok] cur ok CMD_BKSP show ?thesis
        by (simp add: cursor_ok_def del: hd44780_command.simps)
    qed
  qed
qed

lemma putc_keeps_cursor:
  assumes ok: "pins_ok s" and cur: "cursor_ok s"
  shows "\<exists>s'. hd44780_putc s c = Some s' \<and> cursor_ok s' \<and> pins_ok s' \<and>
           hd_lines s' = hd_lines s \<and> hd_cols s' = hd_cols s"
proof (cases "hd_col s = hd_cols s")
  case True
  with putc_edge [OF True] ok cur show ?thesis by simp
next
  case False
  from cur have c: "sint (hd_col s) \<le> sint (hd_cols s)" by (simp add: cursor_ok_def)
  with False have lt: "sint (hd_col s) < sint (hd_cols s)"
    by (metis order_le_less signed_word_eqI)
  have "sint (hd_col s + 1) = sint (hd_col s) + 1" by (rule sint_succ [OF lt])
  with putc_write [OF ok False] lt cur ok show ?thesis
    by (simp add: cursor_ok_def)
qed

lemma do_char_keeps_cursor:
  assumes ok: "pins_ok s" and cur: "cursor_ok s"
  shows "\<exists>s'. do_char s ch = Some s' \<and> cursor_ok s' \<and> pins_ok s' \<and>
           hd_lines s' = hd_lines s \<and> hd_cols s' = hd_cols s"
proof -
  have cmd: "\<exists>s'. hd44780_command s cmd = Some s' \<and> cursor_ok s' \<and> pins_ok s' \<and>
           hd_lines s' = hd_lines s \<and> hd_cols s' = hd_cols s" for cmd
    by (rule command_keeps_cursor [OF ok cur])
  have e: "cursor_ok (t\<lparr>esc := v\<rparr>) = cursor_ok t" for t v
    by (simp add: cursor_ok_def)
  show ?thesis
  proof (cases "esc s \<noteq> 0")
    case True
    show ?thesis
    proof (cases "ch = 0x52")
      case r: True
      from cmd [of CMD_RESET] obtain s' where "hd44780_command s CMD_RESET = Some s'"
        "cursor_ok s'" "pins_ok s'" "hd_lines s' = hd_lines s" "hd_cols s' = hd_cols s"
        by blast
      with True r show ?thesis by (simp add: do_char_def e del: hd44780_command.simps)
    next
      case nr: False
      show ?thesis
      proof (cases "ch = 0x48")
        case h: True
        from cmd [of CMD_HOME] obtain s' where "hd44780_command s CMD_HOME = Some s'"
          "cursor_ok s'" "pins_ok s'" "hd_lines s' = hd_lines s" "hd_cols s' = hd_cols s"
          by blast
        with True nr h show ?thesis by (simp add: do_char_def e del: hd44780_command.simps)
      next
        case False
        with True nr ok cur show ?thesis by (simp add: do_char_def e)
      qed
    qed
  next
    case False
    then have z: "esc s = 0" by simp
    from cmd putc_keeps_cursor [OF ok cur] ok cur z show ?thesis
      by (simp add: do_char_def e del: hd44780_command.simps)
  qed
qed

lemma do_chars_keep_cursor:
  "pins_ok s \<Longrightarrow> cursor_ok s \<Longrightarrow>
   \<exists>s'. do_chars input s = Some s' \<and> cursor_ok s' \<and> pins_ok s' \<and>
     hd_lines s' = hd_lines s \<and> hd_cols s' = hd_cols s"
proof (induction input arbitrary: s)
  case Nil
  then show ?case by simp
next
  case (Cons ch cs)
  from do_char_keeps_cursor [OF Cons.prems, of ch] obtain s1 where
    s1: "do_char s ch = Some s1" "cursor_ok s1" "pins_ok s1"
      "hd_lines s1 = hd_lines s" "hd_cols s1 = hd_cols s"
    by blast
  from Cons.IH [OF s1(3) s1(2)] s1 show ?case by simp
qed

text \<open>
  C9. Every operation of the display state machine (\<open>CMD_RESET\<close>, \<open>CMD_CLR\<close>,
  \<open>CMD_HOME\<close>, \<open>CMD_CR\<close>, \<open>CMD_NL\<close>, \<open>CMD_TAB\<close>, \<open>CMD_BKSP\<close>, \<open>CMD_FLASH\<close> and
  \<open>hd44780_putc\<close>) preserves the range of the cursor: if 0 \<le> row < lines and
  0 \<le> column \<le> columns hold before it, they hold after it, for the same numbers of
  lines and columns. Each of them completes whenever the pins are ready: each of the
  seven driven pins is assigned to a line 0 to 11 whose handle is in \<open>hd_gpio.lines\<close>.
  An operation that completes otherwise has set no pin and changed nothing.
\<close>

theorem cursor_range_preserved:
  assumes "cursor_ok s"
  shows "(\<forall>s'. hd44780_command s cmd = Some s' \<longrightarrow>
            cursor_ok s' \<and> hd_lines s' = hd_lines s \<and> hd_cols s' = hd_cols s) \<and>
         (\<forall>s'. hd44780_putc s c = Some s' \<longrightarrow>
            cursor_ok s' \<and> hd_lines s' = hd_lines s \<and> hd_cols s' = hd_cols s) \<and>
         (pins_ok s \<longrightarrow>
            (\<exists>s'. hd44780_command s cmd = Some s') \<and> (\<exists>s'. hd44780_putc s c = Some s'))"
proof (intro conjI allI impI)
  fix s'
  assume r: "hd44780_command s cmd = Some s'"
  from command_SomeD [OF r]
  have "cursor_ok s' \<and> hd_lines s' = hd_lines s \<and> hd_cols s' = hd_cols s"
  proof
    assume "pins_ok s"
    from command_keeps_cursor [OF this assms, of cmd] r show ?thesis by auto
  next
    assume "s' = s"
    with assms show ?thesis by simp
  qed
  then show "cursor_ok s'" "hd_lines s' = hd_lines s" "hd_cols s' = hd_cols s" by simp_all
next
  fix s'
  assume r: "hd44780_putc s c = Some s'"
  from putc_SomeD [OF r]
  have "cursor_ok s' \<and> hd_lines s' = hd_lines s \<and> hd_cols s' = hd_cols s"
  proof
    assume "pins_ok s"
    from putc_keeps_cursor [OF this assms, of c] r show ?thesis by auto
  next
    assume "hd_col s = hd_cols s \<and> s' = s"
    with assms show ?thesis by simp
  qed
  then show "cursor_ok s'" "hd_lines s' = hd_lines s" "hd_cols s' = hd_cols s" by simp_all
next
  assume ok: "pins_ok s"
  from command_keeps_cursor [OF ok assms, of cmd] show "\<exists>s'. hd44780_command s cmd = Some s'"
    by blast
  from putc_keeps_cursor [OF ok assms, of c] show "\<exists>s'. hd44780_putc s c = Some s'"
    by blast
qed

theorem cursor_range_preserved_witness:
  "pins_ok ready_state \<and> cursor_ok ready_state \<and>
   map_option cursor_ok (hd44780_command ready_state CMD_NL) = Some True \<and>
   map_option cursor_ok (hd44780_putc ready_state 0x41) = Some True"
proof -
  have cur: "cursor_ok ready_state" by (simp add: cursor_ok_def ready_state_def default_state_def)
  note t = cursor_range_preserved [OF cur, of CMD_NL "0x41"]
  from t ready_pins_ok obtain a b where
    a: "hd44780_command ready_state CMD_NL = Some a"
    and b: "hd44780_putc ready_state 0x41 = Some b"
    by blast
  from t a have "cursor_ok a" by blast
  moreover from t b have "cursor_ok b" by blast
  ultimately show ?thesis using a b ready_pins_ok cur by simp
qed

section \<open>The checks of the geometry\<close>

lemma number_data_pins_fields [simp]:
  "hd_lines (number_data_pins s) = hd_lines s"
  "hd_cols (number_data_pins s) = hd_cols s"
  "hd_bl_on (number_data_pins s) = hd_bl_on s"
  "hw (number_data_pins s) = hw s"
  "pins (number_data_pins s) HD_PIN_BL = pins s HD_PIN_BL"
  by (simp_all add: number_data_pins_def HD_PIN_BL_def HD_PIN_DAT0_def)

lemma main_checks_alt:
  "main_checks s =
     (if hd_ifwidth s \<noteq> 4 then Inl (usage s)
      else if hd_lines s \<noteq> 1 \<and> hd_lines s \<noteq> 2 \<and> hd_lines s \<noteq> 4 then Inl (usage s)
      else if hd_cols s \<le>s 0 \<or> 80 <s hd_lines s * hd_cols s then Inl (usage s)
      else if hd_bl_on s \<noteq> 0 \<and> pins s HD_PIN_BL = - 1 then Inl (usage s)
      else Inr (number_data_pins s))"
  by (simp add: main_checks_def Let_def usage_def)

lemma sint_mult_small:
  assumes l: "l = 1 \<or> l = 2 \<or> l = (4 :: c_int)" and c: "0 < sint (c :: c_int)" "sint c < 2 ^ 29"
  shows "sint (l * c) = sint l * sint c"
  using l
proof (elim disjE)
  assume "l = 1"
  then show ?thesis by simp
next
  assume "l = 2"
  moreover from c have "- (2 ^ 31) \<le> 2 * sint c" "2 * sint c < 2 ^ 31" by simp_all
  ultimately show ?thesis
    by (simp add: sint_word_ariths signed_take_bit_int_eq_self)
next
  assume "l = 4"
  moreover from c have "- (2 ^ 31) \<le> 4 * sint c" "4 * sint c < 2 ^ 31" by simp_all
  ultimately show ?thesis
    by (simp add: sint_word_ariths signed_take_bit_int_eq_self)
qed

lemma geometry_checks_exact:
  assumes w: "hd_ifwidth s = 4" and bl: "hd_bl_on s = 0 \<or> pins s HD_PIN_BL \<noteq> - 1"
    and small: "sint (hd_cols s) < 2 ^ 29"
  shows "(\<exists>s'. main_checks s = Inr s') \<longleftrightarrow>
           (hd_lines s = 1 \<or> hd_lines s = 2 \<or> hd_lines s = 4) \<and> 0 < sint (hd_cols s) \<and>
           sint (hd_lines s) * sint (hd_cols s) \<le> 80"
proof (cases "(hd_lines s = 1 \<or> hd_lines s = 2 \<or> hd_lines s = 4) \<and> 0 < sint (hd_cols s)")
  case True
  then have "sint (hd_lines s * hd_cols s) = sint (hd_lines s) * sint (hd_cols s)"
    using small by (intro sint_mult_small) simp_all
  with True w bl show ?thesis
    by (auto simp add: main_checks_alt word_sless_alt word_sle_eq)
next
  case False
  with w bl show ?thesis
    by (auto simp add: main_checks_alt word_sless_alt word_sle_eq)
qed

lemma rejected_before_hardware:
  assumes "\<not> ((hd_lines s = 1 \<or> hd_lines s = 2 \<or> hd_lines s = 4) \<and> 0 < sint (hd_cols s) \<and>
             sint (hd_lines s) * sint (hd_cols s) \<le> 80)"
    and small: "sint (hd_cols s) < 2 ^ 29"
  shows "main_checks s = Inl (Exited EX_USAGE (hw s)) \<and> main env s input = Exited EX_USAGE (hw s)"
proof -
  have "main_checks s = Inl (Exited EX_USAGE (hw s))"
  proof (cases "(hd_lines s = 1 \<or> hd_lines s = 2 \<or> hd_lines s = 4) \<and> 0 < sint (hd_cols s)")
    case True
    then have "sint (hd_lines s * hd_cols s) = sint (hd_lines s) * sint (hd_cols s)"
      using small by (intro sint_mult_small) simp_all
    with True assms(1) show ?thesis
      by (auto simp add: main_checks_alt word_sless_alt word_sle_eq usage_def)
  next
    case False
    then show ?thesis
      by (auto simp add: main_checks_alt word_sless_alt word_sle_eq usage_def)
  qed
  then show ?thesis by (simp add: main_def and_then_def)
qed

lemma numbered_initial_pins:
  "number_data_pins (initial_state\<lparr>hd_lines := l, hd_cols := c\<rparr>) = default_state\<lparr>hd_lines := l, hd_cols := c\<rparr>"
proof -
  have "pins (number_data_pins (initial_state\<lparr>hd_lines := l, hd_cols := c\<rparr>)) = default_pins"
    by (rule ext) (simp add: number_data_pins_def initial_state_def initial_pins_def
        default_pins_def HD_PIN_DAT0_def HD_PIN_RS_def HD_PIN_RW_def HD_PIN_E_def HD_PIN_BL_def)
  moreover have "number_data_pins (initial_state\<lparr>hd_lines := l, hd_cols := c\<rparr>)
      = initial_state\<lparr>hd_lines := l, hd_cols := c,
          pins := pins (number_data_pins (initial_state\<lparr>hd_lines := l, hd_cols := c\<rparr>))\<rparr>"
    by (simp add: number_data_pins_def)
  ultimately show ?thesis
    by (simp add: initial_state_def default_state_def)
qed

text \<open>
  C8. The configuration is accepted if and only if lines is 1, 2 or 4, columns > 0 and
  lines * columns \<le> 80, and every other one ends in the usage error before any
  hardware access. The code does so wherever the product fits an \<open>int\<close>
  (\<open>geometry_checks_exact\<close>, \<open>rejected_before_hardware\<close>). The product is computed in
  \<open>int\<close>, though: with 4 lines of 1073741824 columns it overflows to 0, the check
  passes, and \<open>main\<close> goes on to open the chip.
\<close>

theorem geometry_overflow_accepted:
  "80 < sint (hd_lines (initial_state\<lparr>hd_lines := 4, hd_cols := 0x40000000\<rparr>))
        * sint (hd_cols (initial_state\<lparr>hd_lines := 4, hd_cols := 0x40000000\<rparr>)) \<and>
   main_checks (initial_state\<lparr>hd_lines := 4, hd_cols := 0x40000000\<rparr>)
     = Inr (default_state\<lparr>hd_lines := 4, hd_cols := 0x40000000\<rparr>) \<and>
   main no_chip (initial_state\<lparr>hd_lines := 4, hd_cols := 0x40000000\<rparr>) []
     = Exited EX_OSFILE [ChipOpen]"
proof -
  let ?s = "initial_state\<lparr>hd_lines := 4, hd_cols := 0x40000000\<rparr>"
  have a: "80 < sint (hd_lines ?s) * sint (hd_cols ?s)" by simp
  have b: "main_checks ?s = Inr (default_state\<lparr>hd_lines := 4, hd_cols := 0x40000000\<rparr>)"
    unfolding main_checks_alt numbered_initial_pins
    by (simp add: initial_state_def initial_pins_def HD_PIN_BL_def HD_PIN_RS_def HD_PIN_RW_def
        HD_PIN_E_def word_sle_eq word_sless_alt)
  have c: "main no_chip ?s [] = Exited EX_OSFILE [ChipOpen]"
    unfolding main_def b
    by (simp add: and_then_def hd44780_prepare_def no_chip_def default_state_def)
  from a b c show ?thesis by simp
qed

section \<open>The whole run\<close>

text \<open>
  A state that \<open>hd44780_prepare\<close> returns has passed the assertions of the reset
  sequence and has read each handle from the table: its pins are ready, and its cursor
  is at (0,0). So every state that \<open>do_char\<close> runs on satisfies \<open>pins_ok\<close> and
  \<open>cursor_ok\<close>, no command fails there, and
  \<open>main\<close> exits with \<open>EX_OK\<close> on every input.
\<close>

lemma for_pins_keeps:
  assumes "\<And>i s s'. body i s = Inr s' \<Longrightarrow> f s' = f s"
  shows "for_pins is body s = Inr s' \<Longrightarrow> f s' = f s"
proof (induction "is" arbitrary: s)
  case Nil
  then show ?case by simp
next
  case (Cons i "is")
  then show ?case
    by (auto simp: and_then_def split: sum.splits dest: assms)
qed

lemma and_then_InrD: "and_then r f = Inr s' \<Longrightarrow> \<exists>s1. r = Inr s1 \<and> f s1 = Inr s'"
  by (cases r) (simp_all add: and_then_def)

lemma prepare_ready:
  assumes p: "hd44780_prepare env s = Inr s'"
    and g: "0 < sint (hd_lines s)" "0 \<le> sint (hd_cols s)"
  shows "pins_ok s' \<and> cursor_ok s' \<and> hd_lines s' = hd_lines s \<and> hd_cols s' = hd_cols s"
  using p
  apply (simp add: hd44780_prepare_def Let_def split: if_splits del: hd44780_command.simps)
  apply (drule and_then_InrD, erule exE, erule conjE)+
  subgoal premises q for s1 s2 s3
  proof -
    let ?f = "\<lambda>s. (hd_lines s, hd_cols s)"
    let ?s0 = "s\<lparr>hw := hw s @ [ChipOpen], hd_gpio := hd_gpio s\<lparr>chip := True\<rparr>\<rparr>"
    have f1: "?f s1 = ?f ?s0"
      by (rule for_pins_keeps [OF _ q(2)]) (auto simp: Let_def split: if_splits)
    have f2: "?f s2 = ?f s1"
      by (rule for_pins_keeps [OF _ q(3)]) (auto simp: Let_def split: if_splits option.splits)
    have f3: "?f s3 = ?f s2"
      by (rule for_pins_keeps [OF _ q(4)])
        (auto simp: or_fail_def hd44780_set_pin_def split: if_splits option.splits)
    from f1 f2 f3 have f: "hd_lines s3 = hd_lines s" "hd_cols s3 = hd_cols s"
      by simp_all
    let ?s4 = "s3\<lparr>hw := hw s3 @ [Usleep 20000]\<rparr>"
    from q(5) obtain s5 where
      r: "hd44780_command ?s4 CMD_RESET = Some s5"
      and b: "(if hd_bl_on s5 \<noteq> 0 then hd44780_set_pin s5 HD_PIN_BL True else Some s5) = Some s'"
      by (auto simp: or_fail_def usleep_def split: option.splits Option.bind_splits
          simp del: hd44780_command.simps)
    from r have ok: "pins_ok ?s4" by (rule reset_SomeD)
    from r reset_Some [OF ok] have s5: "s5 = ?s4\<lparr>hd_col := 0, hd_row := 0,
        hw := hw ?s4 @ reset_events ?s4 @ clear_events (driven ?s4)\<rparr>"
      by simp
    from ok s5 have ok5: "pins_ok s5" by simp
    from b have s': "gpio_line s' = gpio_line s5" "hd_lines s' = hd_lines s5"
      "hd_cols s' = hd_cols s5" "hd_col s' = hd_col s5" "hd_row s' = hd_row s5"
      by (auto simp: hd44780_set_pin_def split: if_splits option.splits)
    from ok5 s'(1) have "pins_ok s'" by (simp add: pins_ok_gpio)
    with f s5 s' g show ?thesis
      by (simp add: cursor_ok_def)
  qed
  done

text \<open>
  With the default pins and a chip that grants every line, \<open>hd44780_prepare\<close> returns,
  and what it returns is \<open>ready_state\<close> up to the log: the chip is open and the table
  holds the handles of the lines 0 to 7.
\<close>

lemma lines_tab:
  "(\<lambda>_. None)(4 := Some 4, 5 := Some 5, 6 := Some 6, 7 := Some 7, 0 := Some 0, Suc 0 := Some 1,
      2 := Some 2, 3 := Some 3) = default_lines"
proof (rule ext)
  fix n :: nat
  consider "n = 0" | "n = 1" | "n = 2" | "n = 3" | "n = 4" | "n = 5" | "n = 6" | "n = 7" | "8 \<le> n"
    by linarith
  then show "((\<lambda>_. None)(4 := Some 4, 5 := Some 5, 6 := Some 6, 7 := Some 7, 0 := Some 0,
      Suc 0 := Some 1, 2 := Some 2, 3 := Some 3)) n = default_lines n"
    by cases (simp_all add: default_lines_def)
qed

lemmas pin_defs = HD_PIN_DAT0_def HD_PIN_RS_def HD_PIN_RW_def HD_PIN_E_def HD_PIN_BL_def
  HD_PIN_COUNT_def

lemma prepare_get_lines:
  "\<exists>h. for_pins pin_ids (\<lambda>i s.
          if pins s i = - 1 then Inr s
          else let s = s\<lparr>hw := hw s @ [GetLine (pins s i)]\<rparr> in
            if \<not> (0 \<le>s pins s i \<and> pins s i <s word_of_nat HD_PIN_COUNT) then Inl Failed
            else let s = s\<lparr>hd_gpio := (hd_gpio s)\<lparr>lines := (lines (hd_gpio s))
                        (nat (sint (pins s i)) :=
                           if get_line_ok good_chip (pins s i) then Some (pins s i) else None)\<rparr>\<rparr> in
              if lines_at s (pins s i) = None then Inl (Exited EX_OSFILE (hw s))
              else Inr s) (default_state\<lparr>hw := [ChipOpen], hd_gpio := \<lparr>chip = True, lines = (\<lambda>_. None)\<rparr>\<rparr>)
     = Inr (ready_state\<lparr>hw := h\<rparr>)"
  by (simp add: pin_ids_def and_then_def Let_def default_state_def ready_state_def default_pins_def
     pin_defs lines_at_def good_chip_def word_sle_eq word_sless_alt lines_tab default_lines_def)

lemma prepare_request_outputs:
  "\<exists>h'. for_pins pin_ids (\<lambda>i s.
          if pins s i = - 1 then Inr s
          else case lines_at s (pins s i) of
                 None \<Rightarrow> Inl Failed
               | Some line \<Rightarrow>
                   let s = s\<lparr>hw := hw s @ [RequestOutput line]\<rparr> in
                     if request_output_ok good_chip line then Inr s
                     else Inl (Exited EXIT_1 (hw s))) (ready_state\<lparr>hw := h\<rparr>)
     = Inr (ready_state\<lparr>hw := h'\<rparr>)"
  by (simp add: pin_ids_def and_then_def Let_def default_state_def ready_state_def default_pins_def
     pin_defs lines_at_def good_chip_def word_sle_eq word_sless_alt default_lines_def)

lemma prepare_clear_pins:
  "\<exists>h'. for_pins pin_ids (\<lambda>i s.
          if pins s i = - 1 then Inr s
          else or_fail (hd44780_set_pin s i False)) (ready_state\<lparr>hw := h\<rparr>)
     = Inr (ready_state\<lparr>hw := h'\<rparr>)"
  by (simp add: pin_ids_def and_then_def Let_def default_state_def ready_state_def default_pins_def
     pin_defs lines_at_def word_sle_eq word_sless_alt default_lines_def or_fail_def
     hd44780_set_pin_def)

lemma prepare_reset:
  "\<exists>h'. or_fail (do {
          s \<leftarrow> usleep 20000 (ready_state\<lparr>hw := h\<rparr>);
          s \<leftarrow> hd44780_command s CMD_RESET;
          if hd_bl_on s \<noteq> 0 then hd44780_set_pin s HD_PIN_BL True else Some s
        }) = Inr (ready_state\<lparr>hw := h'\<rparr>)"
proof -
  let ?s4 = "ready_state\<lparr>hw := h @ [Usleep 20000]\<rparr>"
  have ok: "pins_ok ?s4" using ready_pins_ok by simp
  have bl: "gpio_line ready_state HD_PIN_BL \<noteq> None"
    by (simp add: gpio_line_def lines_at_def ready_state_def default_state_def default_lines_def
        default_pins_def pin_defs word_sle_eq word_sless_alt)
  have z: "ready_state\<lparr>hd_col := 0, hd_row := 0, hw := k\<rparr> = ready_state\<lparr>hw := k\<rparr>" for k
    by (simp add: ready_state_def default_state_def)
  have b: "hd_bl_on ready_state \<noteq> 0" by (simp add: ready_state_def default_state_def)
  show ?thesis
    by (simp add: usleep_def reset_Some [OF ok] set_pin_Some bl or_fail_def z b
        del: hd44780_command.simps) (rule exI, rule refl)
qed

lemma prepare_default_state:
  "\<exists>h. hd44780_prepare good_chip default_state = Inr (ready_state\<lparr>hw := h\<rparr>)"
proof -
  from prepare_get_lines obtain h1 where l1: "for_pins pin_ids (\<lambda>i s.
          if pins s i = - 1 then Inr s
          else let s = s\<lparr>hw := hw s @ [GetLine (pins s i)]\<rparr> in
            if \<not> (0 \<le>s pins s i \<and> pins s i <s word_of_nat HD_PIN_COUNT) then Inl Failed
            else let s = s\<lparr>hd_gpio := (hd_gpio s)\<lparr>lines := (lines (hd_gpio s))
                        (nat (sint (pins s i)) :=
                           if get_line_ok good_chip (pins s i) then Some (pins s i) else None)\<rparr>\<rparr> in
              if lines_at s (pins s i) = None then Inl (Exited EX_OSFILE (hw s))
              else Inr s) (default_state\<lparr>hw := [ChipOpen], hd_gpio := \<lparr>chip = True, lines = (\<lambda>_. None)\<rparr>\<rparr>)
     = Inr (ready_state\<lparr>hw := h1\<rparr>)" ..
  from prepare_request_outputs [of h1] obtain h2 where l2: "for_pins pin_ids (\<lambda>i s.
          if pins s i = - 1 then Inr s
          else case lines_at s (pins s i) of
                 None \<Rightarrow> Inl Failed
               | Some line \<Rightarrow>
                   let s = s\<lparr>hw := hw s @ [RequestOutput line]\<rparr> in
                     if request_output_ok good_chip line then Inr s
                     else Inl (Exited EXIT_1 (hw s))) (ready_state\<lparr>hw := h1\<rparr>)
     = Inr (ready_state\<lparr>hw := h2\<rparr>)" ..
  from prepare_clear_pins [of h2] obtain h3 where l3: "for_pins pin_ids (\<lambda>i s.
          if pins s i = - 1 then Inr s
          else or_fail (hd44780_set_pin s i False)) (ready_state\<lparr>hw := h2\<rparr>)
     = Inr (ready_state\<lparr>hw := h3\<rparr>)" ..
  from prepare_reset [of h3] obtain h4 where l4: "or_fail (do {
          s \<leftarrow> usleep 20000 (ready_state\<lparr>hw := h3\<rparr>);
          s \<leftarrow> hd44780_command s CMD_RESET;
          if hd_bl_on s \<noteq> 0 then hd44780_set_pin s HD_PIN_BL True else Some s
        }) = Inr (ready_state\<lparr>hw := h4\<rparr>)" ..
  have c: "chip_open_ok good_chip" by (simp add: good_chip_def)
  from l1 l2 l3 l4
  have "hd44780_prepare good_chip default_state = Inr (ready_state\<lparr>hw := h4\<rparr>)"
    by (simp add: hd44780_prepare_def Let_def c and_then_def default_state_def
        del: hd44780_command.simps)
  then show ?thesis ..
qed

text \<open>
  A line number outside the table is not rejected by \<open>main\<close>: with \<open>-D 9\<close> the fourth
  data pin is line 12, and the first loop of \<open>hd44780_prepare\<close> stores its handle at
  \<open>hd_gpio.lines[12]\<close>, past the end of the table.
\<close>

lemma line_outside_table:
  "main good_chip (initial_state\<lparr>pins := (pins initial_state)(HD_PIN_DAT0 := 9)\<rparr>) input = Failed"
  by (simp add: main_def) code_simp

lemma main_checks_InrD:
  assumes "main_checks s = Inr s1"
  shows "0 < sint (hd_lines s1) \<and> 0 < sint (hd_cols s1)"
proof -
  from assms have "s1 = number_data_pins s"
    and l: "hd_lines s = 1 \<or> hd_lines s = 2 \<or> hd_lines s = 4"
    and c: "\<not> hd_cols s \<le>s 0"
    by (auto simp: main_checks_alt split: if_splits)
  moreover from l have "0 < sint (hd_lines s)" by auto
  ultimately show ?thesis by (simp add: word_sle_eq)
qed

lemma main_run:
  assumes c: "main_checks s = Inr s1" and p: "hd44780_prepare env s1 = Inr s2"
  shows "\<exists>s3. do_chars input s2 = Some s3 \<and> cursor_ok s3 \<and>
           main env s input = Exited EX_OK (hw s3 @ [ChipClose])"
proof -
  from main_checks_InrD [OF c] have g: "0 < sint (hd_lines s1)" "0 \<le> sint (hd_cols s1)"
    by simp_all
  from prepare_ready [OF p g] have "pins_ok s2" "cursor_ok s2" by simp_all
  from do_chars_keep_cursor [OF this, of input] obtain s3 where
    "do_chars input s2 = Some s3" "cursor_ok s3"
    by blast
  with c p show ?thesis by (simp add: main_def and_then_def)
qed

text \<open>
  The scenario of the specification: \<open>"AB\nCD"\<close> on the 2 x 16 display, from (0,0), ends
  with the cursor at row 1, column 2.
\<close>

lemma scenario_AB_newline_CD:
  "map_option (\<lambda>s. (hd_row s, hd_col s)) (do_chars [0x41, 0x42, 0x0A, 0x43, 0x44] ready_state)
     = Some (1, 2)"
  by code_simp

end
